theory Spec2Isabelle
  imports Complex_Main "HOL-Library.Log_Nat"
begin

section \<open>Strings as the script parser uses them\<close>

text \<open>
  A script is a JavaScript string. It is modelled as a \<^typ>\<open>string\<close> whose characters
  stand for code units below 256, which covers every character the parser tests for.
  The functions below are the string methods \<^verbatim>\<open>parseScriptToArrays\<close> calls, with
  the results JavaScript gives them.
\<close>

definition dquote :: char where
  "dquote = CHR 0x22"

definition is_space :: "char \<Rightarrow> bool" where
  \<comment> \<open>the white space and line terminators that \<^verbatim>\<open>String.prototype.trim\<close> removes\<close>
  "is_space c \<longleftrightarrow>
     c \<in> set [CHR 0x09, CHR 0x0A, CHR 0x0B, CHR 0x0C, CHR 0x0D, CHR 0x20, CHR 0xA0]"

definition trim :: "string \<Rightarrow> string" where
  "trim s = rev (dropWhile is_space (rev (dropWhile is_space s)))"

fun startsWith :: "string \<Rightarrow> string \<Rightarrow> bool" where
  "startsWith s [] = True"
| "startsWith [] (p # ps) = False"
| "startsWith (c # cs) (p # ps) = (c = p \<and> startsWith cs ps)"

definition endsWith :: "string \<Rightarrow> string \<Rightarrow> bool" where
  "endsWith s p = startsWith (rev s) (rev p)"

text \<open>
  \<^verbatim>\<open>s.split(sep)\<close> for a separator that is not empty: the pieces between the
  occurrences of \<open>sep\<close>, found from the left without overlap. The empty string splits
  into one empty piece.
\<close>

function split_on :: "string \<Rightarrow> string \<Rightarrow> string list" where
  "split_on sep [] = [[]]"
| "split_on sep (c # cs) =
     (if sep \<noteq> [] \<and> startsWith (c # cs) sep
      then [] # split_on sep (drop (length sep) (c # cs))
      else (case split_on sep cs of
              w # ws \<Rightarrow> (c # w) # ws
            | [] \<Rightarrow> [[c]]))"
  by pat_completeness auto
termination
  by (relation "measure (\<lambda>(sep, s). length s)") auto

text \<open>
  Array destructuring \<^verbatim>\<open>[a, b, c] = arr\<close> reads \<^verbatim>\<open>arr[0]\<close>, \<^verbatim>\<open>arr[1]\<close>,
  \<^verbatim>\<open>arr[2]\<close>; an index past the end gives \<^verbatim>\<open>undefined\<close>, here \<open>None\<close>.
\<close>

definition at_index :: "'a list \<Rightarrow> nat \<Rightarrow> 'a option" where
  "at_index xs i = (if i < length xs then Some (xs ! i) else None)"

definition truthy :: "string option \<Rightarrow> bool" where
  \<comment> \<open>a string or \<^verbatim>\<open>undefined\<close> used as a condition\<close>
  "truthy v \<longleftrightarrow> (case v of None \<Rightarrow> False | Some s \<Rightarrow> s \<noteq> [])"

definition or_empty :: "string option \<Rightarrow> string" where
  \<comment> \<open>\<^verbatim>\<open>v || ""\<close>\<close>
  "or_empty v = (case v of None \<Rightarrow> [] | Some s \<Rightarrow> s)"

definition indexOf :: "string \<Rightarrow> char \<Rightarrow> int" where
  "indexOf s c = (if c \<in> set s then int (length (takeWhile (\<lambda>d. d \<noteq> c) s)) else - 1)"

definition clamp_index :: "nat \<Rightarrow> int \<Rightarrow> nat" where
  \<comment> \<open>how \<^verbatim>\<open>slice\<close> reads an index: a negative one counts from the end\<close>
  "clamp_index n i = (if i < 0 then nat (int n + i) else min (nat i) n)"

definition slice :: "string \<Rightarrow> int \<Rightarrow> int \<Rightarrow> string" where
  "slice s b e =
     (let i = clamp_index (length s) b; j = clamp_index (length s) e
      in take (j - i) (drop i s))"

definition slice_from :: "string \<Rightarrow> int \<Rightarrow> string" where
  "slice_from s b = drop (clamp_index (length s) b) s"

text \<open>
  \<^verbatim>\<open>splitOnColonEscaped\<close>: the loop walks the input with the flag \<open>quoted\<close> and
  returns at the first colon outside double quotes. \<open>colon_split quoted rest\<close> is the
  loop from the position where \<open>rest\<close> starts: it gives the text of \<open>rest\<close> before that
  colon and the text after it, or \<open>None\<close> when the loop runs off the end.
\<close>

fun colon_split :: "bool \<Rightarrow> string \<Rightarrow> (string \<times> string) option" where
  "colon_split quoted [] = None"
| "colon_split quoted (c # cs) =
     (if c = dquote then map_option (\<lambda>(l, r). (c # l, r)) (colon_split (\<not> quoted) cs)
      else if c = CHR '':'' \<and> \<not> quoted then Some ([], cs)
      else map_option (\<lambda>(l, r). (c # l, r)) (colon_split quoted cs))"

definition splitOnColonEscaped :: "string \<Rightarrow> string \<times> string" where
  "splitOnColonEscaped input =
     (case colon_split False input of Some p \<Rightarrow> p | None \<Rightarrow> (input, []))"

section \<open>Actors and events\<close>

text \<open>
  The fields that layout adds to an object are absent until they are assigned;
  an absent field is \<open>None\<close>. A number is the rational that the double stands for.
\<close>

record actor =
  a_type :: string
  a_caption :: string
  a_alias :: "string option"
  a_width :: "rat option"
  a_height :: "rat option"
  a_lineX :: "rat option"
  a_x :: "rat option"
  a_y :: "rat option"
  a_lineY :: "rat option"

definition new_actor :: "string \<Rightarrow> string \<Rightarrow> string option \<Rightarrow> actor" where
  "new_actor t c al =
     \<lparr>a_type = t, a_caption = c, a_alias = al, a_width = None, a_height = None,
      a_lineX = None, a_x = None, a_y = None, a_lineY = None\<rparr>"

record geom =
  ev_x :: "rat option"
  ev_y :: "rat option"
  ev_width :: "rat option"
  ev_height :: "rat option"
  ev_startX :: "rat option"
  ev_endX :: "rat option"
  ev_startY :: "rat option"
  ev_endY :: "rat option"
  ev_textMarginX :: "rat option"
  ev_textMarginY :: "rat option"

definition geom0 :: geom where
  "geom0 = \<lparr>ev_x = None, ev_y = None, ev_width = None, ev_height = None,
     ev_startX = None, ev_endX = None, ev_startY = None, ev_endY = None,
     ev_textMarginX = None, ev_textMarginY = None\<rparr>"

text \<open>
  One constructor for each shape of event object the parser builds:
  \<^item> \<open>Signal caption src dest dotted open\<close> is \<^verbatim>\<open>{type: 'signal', caption, src, dest, dotted, open}\<close>;
  \<^item> \<open>Annotation type caption align src\<close> is \<^verbatim>\<open>{type, caption, align, src}\<close>;
  \<^item> \<open>Grouping type cases\<close> is \<^verbatim>\<open>{type, cases}\<close>, a case being \<^verbatim>\<open>{caption, events}\<close>
    (with \<^verbatim>\<open>height\<close> once laid out);
  \<^item> \<open>Synchrony type events\<close> is \<^verbatim>\<open>{type, events}\<close>;
  \<^item> \<open>Autonumber start\<close> is \<^verbatim>\<open>{type: 'autonumber', start}\<close>;
  \<^item> \<open>Lifetime type src\<close> is \<^verbatim>\<open>{type, src}\<close>.
\<close>

datatype event =
    Signal string string string bool bool geom
  | Annotation string string string "string option" geom
  | Grouping string "ecase list" geom
  | Synchrony string "event list"
  | Autonumber string
  | Lifetime string string
and ecase =
    Case string "event list" "rat option"

section \<open>The parser\<close>

datatype error = TypeError

definition participants :: "string list" where
  "participants = [''participant'', ''actor'']"

definition annotations :: "string list" where
  "annotations = [''note'', ''ref'', ''state'']"

definition synchrony :: "string list" where
  "synchrony = [''parallel'', ''serial'']"

definition lifetime :: "string list" where
  "lifetime = [''activate'', ''deactivate'', ''destroy'']"

definition conditionalGroupings :: "string list" where
  "conditionalGroupings = [''alt'', ''opt'', ''loop'', ''par'', ''seq'']"

text \<open>
  \<^verbatim>\<open>eventStack\<close> holds references into the tree under construction: the root array,
  the \<^verbatim>\<open>events\<close> array of a case or of a synchrony block, a grouping object, or an
  annotation object. Only the top of the stack is ever written to, and every entry was
  put into the entry beneath it when it was pushed, as its last child. So the stack is
  modelled as a list of frames, top first, where a frame holds what its object contains
  apart from the child that the frame above stands for; \<open>close\<close> puts a finished frame
  into the one beneath, which is where the source's object already sits when
  \<^verbatim>\<open>eventStack.pop()\<close> drops the reference.
\<close>

datatype seq_owner = Root | CaseOf string | SyncOf string

datatype frame =
    FSeq seq_owner "event list"
  | FAlt string "ecase list"
  | FNote string string string "string option"

fun close :: "frame \<Rightarrow> frame \<Rightarrow> frame" where
  "close (FSeq (CaseOf c) evs) (FAlt t cs) = FAlt t (cs @ [Case c evs None])"
| "close (FSeq (SyncOf t) evs) (FSeq k evs') = FSeq k (evs' @ [Synchrony t evs])"
| "close (FAlt t cs) (FSeq k evs') = FSeq k (evs' @ [Grouping t cs geom0])"
| "close (FNote t c al s) (FSeq k evs') = FSeq k (evs' @ [Annotation t c al s geom0])"
| "close f below = below"

fun pop :: "frame list \<Rightarrow> frame list" where
  "pop (f # g # rest) = close f g # rest"
| "pop fs = []"

fun frame_type :: "frame \<Rightarrow> string option" where
  \<comment> \<open>the \<^verbatim>\<open>type\<close> property of a stack entry; an array has none\<close>
  "frame_type (FSeq k evs) = None"
| "frame_type (FAlt t cs) = Some t"
| "frame_type (FNote t c al s) = Some t"

definition type_in :: "string list \<Rightarrow> frame \<Rightarrow> bool" where
  \<comment> \<open>\<^verbatim>\<open>list.includes(entry.type)\<close>\<close>
  "type_in names f = (case frame_type f of None \<Rightarrow> False | Some t \<Rightarrow> t \<in> set names)"

fun push_event :: "event \<Rightarrow> frame list \<Rightarrow> error + frame list" where
  \<comment> \<open>\<^verbatim>\<open>eventStack.at(-1).push(e)\<close>: only an array has \<^verbatim>\<open>push\<close>\<close>
  "push_event e (FSeq k evs # rest) = Inr (FSeq k (evs @ [e]) # rest)"
| "push_event e fs = Inl TypeError"

definition guarded_pop :: "frame list \<Rightarrow> frame list" where
  \<comment> \<open>\<^verbatim>\<open>if (eventStack.length > 1) eventStack.pop()\<close>\<close>
  "guarded_pop fs = (if length fs > 1 then pop fs else fs)"

definition command_of :: "string \<Rightarrow> string" where
  "command_of trimmedLine =
     (let spaceIndex = indexOf trimmedLine CHR '' ''
      in if spaceIndex = - 1 then trimmedLine else slice trimmedLine 0 spaceIndex)"

definition text_of :: "string \<Rightarrow> string" where
  "text_of trimmedLine =
     (let spaceIndex = indexOf trimmedLine CHR '' ''
      in slice_from trimmedLine (spaceIndex + 1))"

record signal_line =
  s_caption :: string
  s_src :: string
  s_dest :: string
  s_dotted :: bool
  s_open :: bool
  s_newActor :: bool
  s_isActivated :: bool
  s_isDeactivated :: bool

text \<open>
  The signal branch up to the point where it touches the stack: \<open>None\<close> when the test
  \<^verbatim>\<open>caption && dest\<close> fails, otherwise the values of the local variables.
\<close>

definition strip_front :: "string \<Rightarrow> string \<Rightarrow> bool \<times> string" where
  \<comment> \<open>\<^verbatim>\<open>if (dest.startsWith(p)) { dest = dest.slice(1); flag = true; }\<close>\<close>
  "strip_front p d = (if startsWith d p then (True, slice_from d 1) else (False, d))"

definition signal_fields :: "string \<Rightarrow> signal_line option" where
  "signal_fields trimmedLine =
     (let (srcDest, caption) = splitOnColonEscaped trimmedLine;
          parts = split_on ''->'' srcDest;
          src = or_empty (at_index parts 0);
          dest = at_index parts 1
      in if caption \<noteq> [] \<and> truthy dest then
           (let caption = trim caption;
                dest = filter (\<lambda>c. c \<noteq> dquote) (trim (or_empty dest));
                src = filter (\<lambda>c. c \<noteq> dquote) (trim src);
                dotted = endsWith src ''-'';
                src = (if dotted then slice src 0 (- 1) else src);
                (opn, dest) = strip_front ''>'' dest;
                (newActor, dest) = strip_front ''*'' dest;
                (isActivated, dest) = strip_front ''+'' dest;
                (isDeactivated, dest) = strip_front ''-'' dest
            in Some \<lparr>s_caption = caption, s_src = src, s_dest = dest, s_dotted = dotted,
                 s_open = opn, s_newActor = newActor, s_isActivated = isActivated,
                 s_isDeactivated = isDeactivated\<rparr>)
         else None)"

definition add_if_missing :: "string \<Rightarrow> actor list \<Rightarrow> actor list" where
  \<comment> \<open>\<^verbatim>\<open>if (!actors.find(a => a.caption === name)) actors.push({type: 'participant', caption: name})\<close>\<close>
  "add_if_missing name actors =
     (if find (\<lambda>a. a_caption a = name) actors = None
      then actors @ [new_actor ''participant'' name None] else actors)"

definition signal_events :: "signal_line \<Rightarrow> event list" where
  "signal_events sl =
     [Signal (s_caption sl) (s_src sl) (s_dest sl) (s_dotted sl) (s_open sl) geom0]
     @ (if s_isActivated sl then [Lifetime ''activate'' (s_dest sl)] else [])
     @ (if s_isDeactivated sl then [Lifetime ''deactivate'' (s_dest sl)] else [])"

fun push_events :: "event list \<Rightarrow> frame list \<Rightarrow> error + frame list" where
  "push_events [] fs = Inr fs"
| "push_events (e # es) fs =
     (case push_event e fs of Inl err \<Rightarrow> Inl err | Inr fs' \<Rightarrow> push_events es fs')"

type_synonym pstate = "actor list \<times> frame list"

text \<open>The body of the loop over the lines, for one line.\<close>

definition parse_line :: "pstate \<Rightarrow> string \<Rightarrow> error + pstate" where
  "parse_line st line =
    (case st of
       (actors, []) \<Rightarrow> Inl TypeError
     | (actors, cur # below) \<Rightarrow>
      (let eventStack = cur # below;
           trimmedLine = trim line;
           command = command_of trimmedLine;
           text = text_of trimmedLine
       in
       if command = ''end'' then
         (let stack1 = guarded_pop eventStack
          in case stack1 of
               [] \<Rightarrow> Inl TypeError
             | top1 # below1 \<Rightarrow>
                 if type_in conditionalGroupings top1 then Inr (actors, pop stack1)
                 else Inr (actors, stack1))
       else if type_in annotations cur then
         (case cur of
            FNote t c al s \<Rightarrow> Inr (actors, FNote t (c @ trimmedLine @ [CHR 0x0A]) al s # below)
          | _ \<Rightarrow> Inr (actors, eventStack))
       else if command \<in> set annotations then
         (let parts = split_on '':'' text;
              location = or_empty (at_index parts 0);
              caption = at_index parts 1;
              lparts = split_on '' '' location;
              align = or_empty (at_index lparts 0);
              src = at_index lparts 2;
              multiline = \<not> truthy caption;
              caption = trim (or_empty caption)
          in if multiline then
               (case push_event (Annotation command caption align src geom0) eventStack of
                  Inl err \<Rightarrow> Inl err
                | Inr pushed \<Rightarrow> Inr (actors, FNote command caption align src # eventStack))
             else
               (case push_event (Annotation command caption align src geom0) eventStack of
                  Inl err \<Rightarrow> Inl err
                | Inr pushed \<Rightarrow> Inr (actors, pushed)))
       else if command \<in> set participants then
         (let parts = split_on '' as '' text;
              caption = or_empty (at_index parts 0);
              alias = at_index parts 1;
              alias = (if \<not> truthy alias then caption else or_empty alias)
          in Inr (actors @ [new_actor command caption (Some alias)], eventStack))
       else if command \<in> set conditionalGroupings then
         (case cur of
            FSeq k evs \<Rightarrow> Inr (actors, FSeq (CaseOf text) [] # FAlt command [] # eventStack)
          | _ \<Rightarrow> Inl TypeError)
       else if command = ''else'' then
         (let stack1 = guarded_pop eventStack
          in case stack1 of
               [] \<Rightarrow> Inl TypeError
             | top1 # below1 \<Rightarrow>
                 if type_in conditionalGroupings top1
                 then Inr (actors, FSeq (CaseOf text) [] # stack1)
                 else Inr (actors, stack1))
       else if command \<in> set lifetime then
         (case push_event (Grouping command [Case text [] None] geom0) eventStack of
            Inl err \<Rightarrow> Inl err
          | Inr pushed \<Rightarrow> Inr (actors, pushed))
       else if command \<in> set synchrony then
         (case cur of
            FSeq k evs \<Rightarrow> Inr (actors, FSeq (SyncOf command) [] # eventStack)
          | _ \<Rightarrow> Inl TypeError)
       else if command = ''}'' then
         Inr (actors, guarded_pop eventStack)
       else if command = ''autonumber'' then
         (case push_event (Autonumber text) eventStack of
            Inl err \<Rightarrow> Inl err
          | Inr pushed \<Rightarrow> Inr (actors, pushed))
       else if startsWith command ''#'' then
         Inr (actors, eventStack)
       else
         (case signal_fields trimmedLine of
            None \<Rightarrow> Inr (actors, eventStack)
          | Some sl \<Rightarrow>
              (case push_events (signal_events sl) eventStack of
                 Inl err \<Rightarrow> Inl err
               | Inr pushed \<Rightarrow>
                   Inr (add_if_missing (s_dest sl) (add_if_missing (s_src sl) actors), pushed)))))"

fun parse_lines :: "pstate \<Rightarrow> string list \<Rightarrow> error + pstate" where
  "parse_lines st [] = Inr st"
| "parse_lines st (l # ls) =
     (case parse_line st l of Inl err \<Rightarrow> Inl err | Inr st' \<Rightarrow> parse_lines st' ls)"

text \<open>
  The value returned is the root array, which by then contains every object still on
  the stack: the frames left open are closed into it.
\<close>

fun unwind :: "frame list \<Rightarrow> event list" where
  "unwind [] = []"
| "unwind [FSeq k evs] = evs"
| "unwind [f] = []"
| "unwind (f # g # rest) = unwind (close f g # rest)"

definition initial_state :: pstate where
  "initial_state = ([], [FSeq Root []])"

definition parseScriptToArrays :: "string \<Rightarrow> error + (actor list \<times> event list)" where
  "parseScriptToArrays script =
     (case parse_lines initial_state (split_on [CHR 0x0A] script) of
        Inl err \<Rightarrow> Inl err
      | Inr (actors, eventStack) \<Rightarrow> Inr (actors, unwind eventStack))"

text \<open>
  The commands that the branches before the last one take. A line whose command is none
  of them is read as a signal.
\<close>

definition is_keyword :: "string \<Rightarrow> bool" where
  "is_keyword command \<longleftrightarrow>
     command = ''end'' \<or> command \<in> set annotations \<or> command \<in> set participants \<or>
     command \<in> set conditionalGroupings \<or> command = ''else'' \<or> command \<in> set lifetime \<or>
     command \<in> set synchrony \<or> command = ''}'' \<or> command = ''autonumber'' \<or>
     startsWith command ''#''"

text \<open>
  The bottom entry of the stack is an array: it is the root array \<^verbatim>\<open>events\<close>
  that \<^verbatim>\<open>eventStack\<close> starts with.
\<close>

definition rooted :: "frame list \<Rightarrow> bool" where
  "rooted fs \<longleftrightarrow> fs \<noteq> [] \<and> (case last fs of FSeq k evs \<Rightarrow> True | _ \<Rightarrow> False)"

section \<open>Numbers\<close>

text \<open>
  A JavaScript number is an IEEE 754 double, and every arithmetic operation gives the
  double nearest to the exact result, a tie going to the even mantissa. A double is
  modelled as the rational it stands for. \<open>to_double\<close> rounds a rational to 53
  significant bits: \<open>binade x\<close> is the \<open>k\<close> with \<open>2 powi k \<le> x < 2 powi (k + 1)\<close>, and
  \<open>rne\<close> rounds to the nearest integer, ties to even. The exponent is not bounded:
  the model has no overflow to \<^verbatim>\<open>Infinity\<close> and no subnormal numbers, which
  concerns magnitudes beyond \<open>2 powi 1024\<close> and below \<open>2 powi (- 1022)\<close> only.
\<close>

definition rne :: "rat \<Rightarrow> int" where
  "rne y = (let f = \<lfloor>y\<rfloor>; r = y - of_int f
            in if r < 1 / 2 then f else if 1 / 2 < r then f + 1
               else if even f then f else f + 1)"

definition binade :: "rat \<Rightarrow> int" where
  "binade x = (let (a, b) = quotient_of x; k = bitlen a - bitlen b
               in if 2 powi k \<le> x then k else k - 1)"

definition to_double :: "rat \<Rightarrow> rat" where
  "to_double x = (if x = 0 then 0
                  else (let u = 2 powi (binade \<bar>x\<bar> - 52)
                        in sgn x * of_int (rne (\<bar>x\<bar> / u)) * u))"

definition dadd :: "rat \<Rightarrow> rat \<Rightarrow> rat" where
  "dadd a b = to_double (a + b)"

definition dsub :: "rat \<Rightarrow> rat \<Rightarrow> rat" where
  "dsub a b = to_double (a - b)"

definition dmul :: "rat \<Rightarrow> rat \<Rightarrow> rat" where
  "dmul a b = to_double (a * b)"

definition ddiv :: "rat \<Rightarrow> rat \<Rightarrow> rat" where
  "ddiv a b = to_double (a / b)"

text \<open>
  A number that may be \<^verbatim>\<open>undefined\<close> or \<^verbatim>\<open>NaN\<close> is a \<^typ>\<open>rat option\<close>,
  \<open>None\<close> standing for both; arithmetic on such numbers gives \<open>None\<close> as soon as an
  operand is \<open>None\<close>.
\<close>

definition nadd :: "rat option \<Rightarrow> rat option \<Rightarrow> rat option" where
  "nadd a b = (case a of None \<Rightarrow> None | Some x \<Rightarrow> (case b of None \<Rightarrow> None | Some y \<Rightarrow> Some (dadd x y)))"

definition nsub :: "rat option \<Rightarrow> rat option \<Rightarrow> rat option" where
  "nsub a b = (case a of None \<Rightarrow> None | Some x \<Rightarrow> (case b of None \<Rightarrow> None | Some y \<Rightarrow> Some (dsub x y)))"

definition nmax :: "rat option \<Rightarrow> rat option \<Rightarrow> rat option" where
  \<comment> \<open>\<^verbatim>\<open>Math.max\<close>\<close>
  "nmax a b = (case a of None \<Rightarrow> None | Some x \<Rightarrow> (case b of None \<Rightarrow> None | Some y \<Rightarrow> Some (max x y)))"

section \<open>Layout\<close>

record bbox =
  b_width :: rat
  b_height :: rat

record sizes =
  padding :: rat
  signalMargin :: rat
  noteMarginX :: rat
  noteMarginY :: rat
  noteTextMarginX :: rat
  noteTextMarginY :: rat
  altMinHeight :: rat
  altMarginBottom :: rat
  altMarginItems :: rat
  actorStickmanHeight :: rat
  calculateTextDimensions :: "string \<Rightarrow> bbox"

text \<open>
  \<^verbatim>\<open>actorDict\<close> is a plain object filled with \<^verbatim>\<open>dict[val.caption] = [val, idx]\<close>.
  The entry holds a reference to the actor, so what is read through it later is the
  actor as it is then; the model keeps the index and reads the actor list. A key that
  was never stored is looked up along the prototype chain of the object: \<open>proto key\<close>
  says that the chain gives a value for it that counts as true (a method of
  \<^verbatim>\<open>Object.prototype\<close>, say). Such a value is no entry: its element 1 is
  \<^verbatim>\<open>undefined\<close>, and reading \<^verbatim>\<open>lineX\<close> of its element 0 raises a TypeError.
  Storing under the key \<^verbatim>\<open>__proto__\<close> creates no property: it makes the entry, an
  array of the actor and its index, the prototype of the object. The key then reads as
  that entry, as it does in the map, and the object inherits the array's own keys
  \<^verbatim>\<open>0\<close>, \<^verbatim>\<open>1\<close> and \<^verbatim>\<open>length\<close> and the methods of \<^verbatim>\<open>Array.prototype\<close>
  besides those of \<^verbatim>\<open>Object.prototype\<close>. \<open>inherited_keys actors\<close> is \<open>proto\<close> for
  the object built from \<open>actors\<close>: the inherited keys whose value counts as true (the
  index under \<^verbatim>\<open>1\<close> does unless it is 0), with the methods of ECMAScript 2023.
\<close>

definition actorDict :: "actor list \<Rightarrow> (string \<rightharpoonup> nat)" where
  "actorDict actors =
     fold (\<lambda>(idx, val) dict. dict(a_caption val \<mapsto> idx)) (enumerate 0 actors) Map.empty"

datatype lookup = Entry nat | Inherited | Missing

definition dict_get :: "(string \<Rightarrow> bool) \<Rightarrow> (string \<rightharpoonup> nat) \<Rightarrow> string \<Rightarrow> lookup" where
  "dict_get proto dict key =
     (case dict key of Some idx \<Rightarrow> Entry idx
      | None \<Rightarrow> if proto key then Inherited else Missing)"

definition object_prototype_keys :: "string list" where
  "object_prototype_keys =
     [''constructor'', ''__defineGetter__'', ''__defineSetter__'', ''hasOwnProperty'',
      ''__lookupGetter__'', ''__lookupSetter__'', ''isPrototypeOf'', ''propertyIsEnumerable'',
      ''toString'', ''valueOf'', ''__proto__'', ''toLocaleString'']"

definition array_prototype_keys :: "string list" where
  "array_prototype_keys =
     [''at'', ''concat'', ''copyWithin'', ''entries'', ''every'', ''fill'', ''filter'', ''find'',
      ''findIndex'', ''findLast'', ''findLastIndex'', ''flat'', ''flatMap'', ''forEach'',
      ''includes'', ''indexOf'', ''join'', ''keys'', ''lastIndexOf'', ''map'', ''pop'', ''push'',
      ''reduce'', ''reduceRight'', ''reverse'', ''shift'', ''slice'', ''some'', ''sort'', ''splice'',
      ''toReversed'', ''toSorted'', ''toSpliced'', ''unshift'', ''values'', ''with'']"

definition inherited_keys :: "actor list \<Rightarrow> string \<Rightarrow> bool" where
  "inherited_keys actors key \<longleftrightarrow>
     key \<in> set object_prototype_keys \<or>
     (case actorDict actors ''__proto__'' of
        None \<Rightarrow> False
      | Some idx \<Rightarrow>
          key \<in> set array_prototype_keys \<or> key = ''length'' \<or> key = ''0'' \<or>
          (key = ''1'' \<and> idx \<noteq> 0))"

definition key_of :: "string option \<Rightarrow> string" where
  \<comment> \<open>a property key: \<^verbatim>\<open>undefined\<close> is turned into the string \<^verbatim>\<open>undefined\<close>\<close>
  "key_of s = (case s of None \<Rightarrow> ''undefined'' | Some k \<Rightarrow> k)"

definition lane_index :: "lookup \<Rightarrow> nat option" where
  \<comment> \<open>\<^verbatim>\<open>a[1]\<close>\<close>
  "lane_index a = (case a of Entry idx \<Rightarrow> Some idx | _ \<Rightarrow> None)"

definition entry_lineX :: "actor list \<Rightarrow> nat \<Rightarrow> rat option" where
  \<comment> \<open>\<^verbatim>\<open>a[0].lineX\<close> for an entry\<close>
  "entry_lineX actors idx = (if idx < length actors then a_lineX (actors ! idx) else None)"

type_synonym triple = "nat option \<times> nat option \<times> rat"

text \<open>
  \<^verbatim>\<open>calculateLaneGapsAndTextSize\<close> returns the triples and leaves the sizes it
  measured in the events; the model returns the events with them. The type strings an
  event can carry are those the parser gives each shape of object. \<open>caseLaneGaps\<close> is
  the loop over the cases of an \<^verbatim>\<open>alt\<close>.
\<close>

fun calculateLaneGapsAndTextSize ::
    "(string \<Rightarrow> lookup) \<Rightarrow> sizes \<Rightarrow> event list \<Rightarrow> triple list \<times> event list"
and caseLaneGaps ::
    "(string \<Rightarrow> lookup) \<Rightarrow> sizes \<Rightarrow> ecase list \<Rightarrow> triple list \<times> ecase list"
where
  "calculateLaneGapsAndTextSize dict sz [] = ([], [])"
| "calculateLaneGapsAndTextSize dict sz (Signal c src dest dt opn g # es) =
     (let a1 = dict src; a2 = dict dest;
          (gs, es') = calculateLaneGapsAndTextSize dict sz es
      in if a1 \<noteq> Missing \<and> a2 \<noteq> Missing then
           (let bbox = calculateTextDimensions sz c;
                g' = g\<lparr>ev_width := Some (b_width bbox), ev_height := Some (b_height bbox)\<rparr>
            in ((lane_index a1, lane_index a2, dadd (b_width bbox) (dmul 2 (padding sz))) # gs,
                Signal c src dest dt opn g' # es'))
         else (gs, Signal c src dest dt opn g # es'))"
| "calculateLaneGapsAndTextSize dict sz (Annotation t c al src g # es) =
     (let a1 = dict (key_of src);
          (gs, es') = calculateLaneGapsAndTextSize dict sz es
      in if t = ''note'' \<and> a1 \<noteq> Missing then
           (let bbox = calculateTextDimensions sz c;
                w = dadd (b_width bbox) (dmul 2 (padding sz));
                g' = g\<lparr>ev_width := Some w,
                       ev_height := Some (dadd (b_height bbox) (dmul 2 (padding sz)))\<rparr>
            in ((lane_index a1, map_option Suc (lane_index a1), dadd w (dmul 2 (padding sz))) # gs,
                Annotation t c al src g' # es'))
         else (gs, Annotation t c al src g # es'))"
| "calculateLaneGapsAndTextSize dict sz (Grouping t cs g # es) =
     (if t = ''alt'' then
        (let (gs1, cs') = caseLaneGaps dict sz cs;
             (gs2, es') = calculateLaneGapsAndTextSize dict sz es
         in (gs1 @ gs2, Grouping t cs' g # es'))
      else
        (let (gs, es') = calculateLaneGapsAndTextSize dict sz es
         in (gs, Grouping t cs g # es')))"
| "calculateLaneGapsAndTextSize dict sz (Synchrony t evs # es) =
     (let (gs, es') = calculateLaneGapsAndTextSize dict sz es
      in (gs, Synchrony t evs # es'))"
| "calculateLaneGapsAndTextSize dict sz (Autonumber start # es) =
     (let (gs, es') = calculateLaneGapsAndTextSize dict sz es
      in (gs, Autonumber start # es'))"
| "calculateLaneGapsAndTextSize dict sz (Lifetime t src # es) =
     (let (gs, es') = calculateLaneGapsAndTextSize dict sz es
      in (gs, Lifetime t src # es'))"
| "caseLaneGaps dict sz [] = ([], [])"
| "caseLaneGaps dict sz (Case c evs h # cs) =
     (let (gs1, evs') = calculateLaneGapsAndTextSize dict sz evs;
          (gs2, cs') = caseLaneGaps dict sz cs
      in (gs1 @ gs2, Case c evs' h # cs'))"

text \<open>
  The two passes of \<^verbatim>\<open>calculatePlacements\<close> over the triples. An index that is
  \<^verbatim>\<open>undefined\<close> makes \<^verbatim>\<open>Math.min\<close> and \<^verbatim>\<open>Math.max\<close> \<^verbatim>\<open>NaN\<close>, every
  comparison false and the loops empty: the triple changes nothing. A read of \<open>gaps\<close>
  past its end gives \<^verbatim>\<open>undefined\<close>, which again makes the comparison false.
\<close>

definition raise_gap :: "rat list \<Rightarrow> triple \<Rightarrow> rat list" where
  "raise_gap gaps g =
     (case g of
        (Some i, Some j, w) \<Rightarrow>
          (let idx1 = min i j; idx2 = max i j;
               gaps = (if idx1 + 1 = idx2 \<and> idx1 + 1 < length gaps \<and> gaps ! (idx1 + 1) < w
                       then gaps[idx1 + 1 := w] else gaps);
               gaps = (if idx1 = idx2 \<and> idx1 < length gaps \<and> gaps ! idx1 < w
                       then gaps[idx1 := w] else gaps)
           in gaps)
      | _ \<Rightarrow> gaps)"

text \<open>
  In the second pass every index the loops touch is below \<open>length gaps\<close> when
  \<open>idx2 < length gaps\<close>. That holds for every triple \<^verbatim>\<open>calculatePlacements\<close>
  collects (lemma \<open>triples_in_range\<close> below: an index is at most the number of actors,
  and \<open>gaps\<close> has one entry more). For a larger \<open>idx2\<close> the sum reads past the end
  and is \<^verbatim>\<open>NaN\<close>, and nothing is written; the one case left out,
  \<open>idx2 = length gaps\<close>, would append to the array.
\<close>

definition spread_gap :: "rat list \<Rightarrow> triple \<Rightarrow> rat list" where
  "spread_gap gaps g =
     (case g of
        (Some i, Some j, w) \<Rightarrow>
          (let idx1 = min i j; idx2 = max i j;
               totalGap = fold (\<lambda>j total. dadd total (gaps ! j)) [idx1..<idx2] 0
           in if idx2 < length gaps \<and> idx1 + 1 < idx2 \<and> gaps ! (idx1 + 1) < w then
                (let extraGap = ddiv (dsub w totalGap) (of_nat (idx2 - idx1))
                 in if extraGap > 0
                    then fold (\<lambda>j gaps. gaps[j + 1 := dadd (gaps ! (j + 1)) extraGap]) [idx1..<idx2] gaps
                    else gaps)
              else gaps)
      | _ \<Rightarrow> gaps)"

definition size_actor :: "sizes \<Rightarrow> nat \<Rightarrow> actor list \<times> rat list \<Rightarrow> actor list \<times> rat list" where
  "size_actor sz i st =
     (case st of (actors, gaps) \<Rightarrow>
        (let actor = actors ! i;
             bbox = calculateTextDimensions sz (a_caption actor);
             extraHeight = (if a_type actor = ''actor'' then actorStickmanHeight sz else 0);
             height = dadd (dadd (b_height bbox) (dmul 2 (padding sz))) extraHeight;
             width = dadd (b_width bbox) (dmul 2 (padding sz));
             actors = actors[i := actor\<lparr>a_height := Some height, a_width := Some width\<rparr>];
             gaps = gaps[i := dadd (gaps ! i) (dadd (ddiv width 2) (padding sz))];
             gaps = gaps[i + 1 := dadd (gaps ! (i + 1)) (dadd (ddiv width 2) (padding sz))]
         in (actors, gaps)))"

definition place_actor ::
    "sizes \<Rightarrow> rat list \<Rightarrow> nat \<Rightarrow> actor list \<times> rat \<times> rat option \<Rightarrow> actor list \<times> rat \<times> rat option" where
  "place_actor sz gaps i st =
     (case st of (actors, actorOffsetX, actorMaxHeight) \<Rightarrow>
        (let actor = actors ! i;
             actor = actor\<lparr>a_lineX := Some actorOffsetX\<rparr>;
             actor = actor\<lparr>a_x := nsub (a_lineX actor)
                                   (map_option (\<lambda>w. ddiv w 2) (a_width actor))\<rparr>;
             actor = actor\<lparr>a_y := Some (padding sz)\<rparr>
         in (actors[i := actor], dadd actorOffsetX (gaps ! (i + 1)),
             nmax actorMaxHeight (a_height actor))))"

text \<open>
  \<^verbatim>\<open>calculateEventPlacements\<close> returns the final \<open>y\<close> and leaves the positions in
  the events. \<open>placeCases\<close> is the loop over the cases of an \<^verbatim>\<open>alt\<close>; it carries \<open>y\<close>
  and \<open>altHeight\<close>.
\<close>

fun calculateEventPlacements ::
    "(string \<Rightarrow> lookup) \<Rightarrow> actor list \<Rightarrow> sizes \<Rightarrow> rat \<Rightarrow> event list \<Rightarrow> rat option
      \<Rightarrow> error + (rat option \<times> event list)"
and placeCases ::
    "(string \<Rightarrow> lookup) \<Rightarrow> actor list \<Rightarrow> sizes \<Rightarrow> rat \<Rightarrow> ecase list \<Rightarrow> rat option \<Rightarrow> rat option
      \<Rightarrow> error + (rat option \<times> rat option \<times> ecase list)"
where
  "calculateEventPlacements dict actors sz totalWidth [] y = Inr (y, [])"
| "calculateEventPlacements dict actors sz totalWidth (Signal c src dest dt opn g # es) y =
     (let a1 = dict src; a2 = dict dest
      in if a1 \<noteq> Missing \<and> a2 \<noteq> Missing then
           (case (a1, a2) of
              (Entry i, Entry j) \<Rightarrow>
                (let g' = g\<lparr>ev_startX := entry_lineX actors i, ev_endX := entry_lineX actors j,
                             ev_startY := y, ev_endY := y\<rparr>
                 in case calculateEventPlacements dict actors sz totalWidth es
                           (nadd y (nadd (Some (signalMargin sz)) (ev_height g))) of
                      Inl err \<Rightarrow> Inl err
                    | Inr (y', es') \<Rightarrow> Inr (y', Signal c src dest dt opn g' # es'))
            | _ \<Rightarrow> Inl TypeError)
         else
           (case calculateEventPlacements dict actors sz totalWidth es y of
              Inl err \<Rightarrow> Inl err
            | Inr (y', es') \<Rightarrow> Inr (y', Signal c src dest dt opn g # es')))"
| "calculateEventPlacements dict actors sz totalWidth (Annotation t c al src g # es) y =
     (let a1 = dict (key_of src)
      in if t = ''note'' \<and> a1 \<noteq> Missing then
           (case a1 of
              Entry i \<Rightarrow>
                (let g' = g\<lparr>ev_x := nadd (entry_lineX actors i) (Some (noteMarginX sz)),
                             ev_y := y,
                             ev_textMarginX := Some (noteTextMarginX sz),
                             ev_textMarginY := Some (noteTextMarginY sz)\<rparr>
                 in case calculateEventPlacements dict actors sz totalWidth es
                           (nadd y (nadd (Some (noteMarginY sz)) (ev_height g))) of
                      Inl err \<Rightarrow> Inl err
                    | Inr (y', es') \<Rightarrow> Inr (y', Annotation t c al src g' # es'))
            | _ \<Rightarrow> Inl TypeError)
         else
           (case calculateEventPlacements dict actors sz totalWidth es y of
              Inl err \<Rightarrow> Inl err
            | Inr (y', es') \<Rightarrow> Inr (y', Annotation t c al src g # es')))"
| "calculateEventPlacements dict actors sz totalWidth (Grouping t cs g # es) y =
     (if t = ''alt'' then
        (case placeCases dict actors sz totalWidth cs
                (nadd y (Some (altMarginItems sz))) (Some (altMinHeight sz)) of
           Inl err \<Rightarrow> Inl err
         | Inr (endY, altHeight, cs') \<Rightarrow>
             (let g' = g\<lparr>ev_x := Some 0, ev_y := y, ev_height := altHeight,
                          ev_width := Some totalWidth\<rparr>
              in case calculateEventPlacements dict actors sz totalWidth es
                        (nadd endY (Some (altMarginBottom sz))) of
                   Inl err \<Rightarrow> Inl err
                 | Inr (y', es') \<Rightarrow> Inr (y', Grouping t cs' g' # es')))
      else
        (case calculateEventPlacements dict actors sz totalWidth es y of
           Inl err \<Rightarrow> Inl err
         | Inr (y', es') \<Rightarrow> Inr (y', Grouping t cs g # es')))"
| "calculateEventPlacements dict actors sz totalWidth (Synchrony t evs # es) y =
     (case calculateEventPlacements dict actors sz totalWidth es y of
        Inl err \<Rightarrow> Inl err
      | Inr (y', es') \<Rightarrow> Inr (y', Synchrony t evs # es'))"
| "calculateEventPlacements dict actors sz totalWidth (Autonumber start # es) y =
     (case calculateEventPlacements dict actors sz totalWidth es y of
        Inl err \<Rightarrow> Inl err
      | Inr (y', es') \<Rightarrow> Inr (y', Autonumber start # es'))"
| "calculateEventPlacements dict actors sz totalWidth (Lifetime t src # es) y =
     (case calculateEventPlacements dict actors sz totalWidth es y of
        Inl err \<Rightarrow> Inl err
      | Inr (y', es') \<Rightarrow> Inr (y', Lifetime t src # es'))"
| "placeCases dict actors sz totalWidth [] y altHeight = Inr (y, altHeight, [])"
| "placeCases dict actors sz totalWidth (Case c evs h # cs) y altHeight =
     (case calculateEventPlacements dict actors sz totalWidth evs y of
        Inl err \<Rightarrow> Inl err
      | Inr (endY, evs') \<Rightarrow>
          (let caseHeight = nsub endY y
           in case placeCases dict actors sz totalWidth cs endY (nadd altHeight caseHeight) of
                Inl err \<Rightarrow> Inl err
              | Inr (y', altHeight', cs') \<Rightarrow> Inr (y', altHeight', Case c evs' caseHeight # cs')))"

record placement =
  p_actors :: "actor list"
  p_events :: "event list"
  p_width :: rat
  p_height :: "rat option"

definition calculatePlacements ::
    "(string \<Rightarrow> bool) \<Rightarrow> actor list \<Rightarrow> event list \<Rightarrow> sizes \<Rightarrow> error + placement" where
  "calculatePlacements proto actors events sz =
     (let dict = dict_get proto (actorDict actors);
          gaps = replicate (length actors + 1) 0;
          (actors, gaps) = fold (size_actor sz) [0..<length actors] (actors, gaps);
          (gapMinSizeBetweenLanes, events) = calculateLaneGapsAndTextSize dict sz events;
          gaps = fold (\<lambda>g gaps. raise_gap gaps g) gapMinSizeBetweenLanes gaps;
          gaps = fold (\<lambda>g gaps. spread_gap gaps g) gapMinSizeBetweenLanes gaps;
          (actors, actorOffsetX, actorMaxHeight) =
             fold (place_actor sz gaps) [0..<length actors] (actors, gaps ! 0, Some 0)
      in case calculateEventPlacements dict actors sz actorOffsetX events
                (nadd (nadd actorMaxHeight (Some (dmul (padding sz) 2))) (Some 1)) of
           Inl err \<Rightarrow> Inl err
         | Inr (y, events) \<Rightarrow>
             Inr \<lparr>p_actors = map (\<lambda>actor. actor\<lparr>a_lineY := y\<rparr>) actors,
                  p_events = events, p_width = actorOffsetX, p_height = y\<rparr>)"

text \<open>
  \<^verbatim>\<open>calculateTextDimensionsAscii\<close>: the content is split at every line feed and at
  every backslash followed by \<^verbatim>\<open>n\<close>; the height is the number of pieces and the
  width the length of the longest.
\<close>

fun split_breaks :: "string \<Rightarrow> string list" where
  "split_breaks [] = [[]]"
| "split_breaks [c] = (if c = CHR 0x0A then [[], []] else [[c]])"
| "split_breaks (c # d # cs) =
     (if c = CHR 0x0A then [] # split_breaks (d # cs)
      else if c = CHR 0x5C \<and> d = CHR ''n'' then [] # split_breaks cs
      else (case split_breaks (d # cs) of
              w # ws \<Rightarrow> (c # w) # ws
            | [] \<Rightarrow> [[c]]))"

definition calculateTextDimensionsAscii :: "string \<Rightarrow> bbox" where
  "calculateTextDimensionsAscii content =
     \<lparr>b_width = of_nat (fold max (map length (split_breaks content)) 0),
      b_height = of_nat (length (split_breaks content))\<rparr>"

definition ascii_sizes :: sizes where
  \<comment> \<open>the sizes \<^verbatim>\<open>scriptToAsciiArt\<close> lays out with\<close>
  "ascii_sizes =
     \<lparr>padding = 1, signalMargin = 2, noteMarginX = 1, noteMarginY = 1, noteTextMarginX = 1,
      noteTextMarginY = 1, altMinHeight = 1, altMarginBottom = 1, altMarginItems = 1,
      actorStickmanHeight = 1, calculateTextDimensions = calculateTextDimensionsAscii\<rparr>"

definition layoutAscii :: "string \<Rightarrow> error + placement" where
  \<comment> \<open>\<^verbatim>\<open>scriptToAsciiArt\<close> up to the call of the renderer\<close>
  "layoutAscii script =
     (case parseScriptToArrays script of
        Inl err \<Rightarrow> Inl err
      | Inr (actors, events) \<Rightarrow>
          calculatePlacements (inherited_keys actors) actors events ascii_sizes)"

text \<open>
  What the layout claims speak of: the events and the height of a case, the walk of
  \<^verbatim>\<open>calculateEventPlacements\<close> over the cases of a grouping (each case laid out from
  where the one before ended, its height the distance covered), one list of gaps
  being nowhere smaller than another, a list of numbers that are doubles, and the
  running sum of the gaps that the loop over the actors keeps in \<^verbatim>\<open>actorOffsetX\<close>.
\<close>

fun case_events :: "ecase \<Rightarrow> event list" where
  "case_events (Case c evs h) = evs"

fun case_height :: "ecase \<Rightarrow> rat option" where
  "case_height (Case c evs h) = h"

fun cases_walk ::
    "(string \<Rightarrow> lookup) \<Rightarrow> actor list \<Rightarrow> sizes \<Rightarrow> rat \<Rightarrow> ecase list \<Rightarrow> rat option
      \<Rightarrow> ecase list \<Rightarrow> rat option \<Rightarrow> bool" where
  "cases_walk dict actors sz totalWidth [] y [] endY = (endY = y)"
| "cases_walk dict actors sz totalWidth (Case c evs h # cs) y (Case c' evs' h' # cs') endY =
     (case calculateEventPlacements dict actors sz totalWidth evs y of
        Inl err \<Rightarrow> False
      | Inr (y1, placed) \<Rightarrow>
          placed = evs' \<and> c' = c \<and> h' = nsub y1 y \<and>
          cases_walk dict actors sz totalWidth cs y1 cs' endY)"
| "cases_walk dict actors sz totalWidth (v # va) y [] endY = False"
| "cases_walk dict actors sz totalWidth [] y (v # va) endY = False"

definition gaps_le :: "rat list \<Rightarrow> rat list \<Rightarrow> bool" where
  "gaps_le xs ys \<longleftrightarrow> length ys = length xs \<and> (\<forall>k<length xs. xs ! k \<le> ys ! k)"

definition doubles :: "rat list \<Rightarrow> bool" where
  "doubles xs \<longleftrightarrow> (\<forall>x\<in>set xs. to_double x = x)"

fun lane_centre :: "rat list \<Rightarrow> nat \<Rightarrow> rat" where
  "lane_centre gaps 0 = gaps ! 0"
| "lane_centre gaps (Suc i) = dadd (lane_centre gaps i) (gaps ! Suc i)"

section \<open>Evaluation and the branches of the parser\<close>

lemmas string_defs = trim_def is_space_def command_of_def text_of_def indexOf_def slice_def
  slice_from_def clamp_index_def splitOnColonEscaped_def dquote_def at_index_def truthy_def
  or_empty_def endsWith_def strip_front_def

lemmas keyword_defs = annotations_def participants_def conditionalGroupings_def lifetime_def
  synchrony_def

lemmas parser_defs = parseScriptToArrays_def initial_state_def parse_line_def type_in_def
  guarded_pop_def signal_fields_def signal_events_def add_if_missing_def new_actor_def

lemma parse_line_end:
  "command_of (trim line) = ''end'' \<Longrightarrow>
   parse_line (actors, cur # below) line =
     (case guarded_pop (cur # below) of
        [] \<Rightarrow> Inl TypeError
      | top1 # below1 \<Rightarrow>
          if type_in conditionalGroupings top1 then Inr (actors, pop (top1 # below1))
          else Inr (actors, top1 # below1))"
  by (simp add: parse_line_def Let_def split: list.splits)

lemma parse_line_else:
  "command_of (trim line) = ''else'' \<Longrightarrow> \<not> type_in annotations cur \<Longrightarrow>
   parse_line (actors, cur # below) line =
     (case guarded_pop (cur # below) of
        [] \<Rightarrow> Inl TypeError
      | top1 # below1 \<Rightarrow>
          if type_in conditionalGroupings top1
          then Inr (actors, FSeq (CaseOf (text_of (trim line))) [] # top1 # below1)
          else Inr (actors, top1 # below1))"
  by (simp add: parse_line_def keyword_defs Let_def split: list.splits)

lemma parse_line_lifetime:
  "command_of (trim line) \<in> set lifetime \<Longrightarrow> \<not> type_in annotations cur \<Longrightarrow>
   parse_line (actors, cur # below) line =
     (case push_event (Grouping (command_of (trim line)) [Case (text_of (trim line)) [] None] geom0)
             (cur # below) of
        Inl err \<Rightarrow> Inl err
      | Inr pushed \<Rightarrow> Inr (actors, pushed))"
  by (auto simp add: parse_line_def keyword_defs Let_def)

lemma parse_line_other:
  "\<not> is_keyword (command_of (trim line)) \<Longrightarrow> \<not> type_in annotations cur \<Longrightarrow>
   parse_line (actors, cur # below) line =
     (case signal_fields (trim line) of
        None \<Rightarrow> Inr (actors, cur # below)
      | Some sl \<Rightarrow>
          (case push_events (signal_events sl) (cur # below) of
             Inl err \<Rightarrow> Inl err
           | Inr pushed \<Rightarrow>
               Inr (add_if_missing (s_dest sl) (add_if_missing (s_src sl) actors), pushed)))"
  by (simp add: parse_line_def is_keyword_def Let_def)

lemma rooted_close: "rooted (g # rest) \<Longrightarrow> rooted (close f g # rest)"
  by (cases "(f, g)" rule: close.cases) (auto simp: rooted_def)

lemma rooted_pop: "rooted (f # g # rest) \<Longrightarrow> rooted (pop (f # g # rest))"
  using rooted_close[of g rest f] by (simp add: rooted_def)

lemma rooted_guarded_pop: "rooted fs \<Longrightarrow> rooted (guarded_pop fs)"
proof (cases fs)
  case Nil
  then show "rooted fs \<Longrightarrow> rooted (guarded_pop fs)" by (simp add: guarded_pop_def)
next
  case (Cons f gs)
  then show "rooted fs \<Longrightarrow> rooted (guarded_pop fs)"
    by (cases gs) (simp_all add: guarded_pop_def rooted_pop del: pop.simps)
qed

lemma rooted_push_frame: "rooted fs \<Longrightarrow> rooted (f # fs)"
  by (simp add: rooted_def)

lemma rooted_push_event: "rooted fs \<Longrightarrow> push_event e fs = Inr fs' \<Longrightarrow> rooted fs'"
  by (cases "(e, fs)" rule: push_event.cases) (auto simp: rooted_def)

lemma rooted_push_events: "rooted fs \<Longrightarrow> push_events es fs = Inr fs' \<Longrightarrow> rooted fs'"
proof (induction es arbitrary: fs)
  case Nil
  then show ?case by simp
next
  case (Cons e es)
  then show ?case by (auto split: sum.splits dest: rooted_push_event)
qed

lemma rooted_pop_alt:
  assumes "rooted (f # gs)" and "type_in conditionalGroupings f"
  shows "rooted (pop (f # gs))"
proof (cases gs)
  case Nil
  with assms show ?thesis by (cases f) (simp_all add: rooted_def type_in_def)
next
  case (Cons g rest)
  with assms(1) show ?thesis by (simp add: rooted_pop del: pop.simps)
qed

lemma rooted_parse_line:
  assumes "rooted stk" and "parse_line (actors, stk) line = Inr (actors', stk')"
  shows "rooted stk'"
proof -
  from assms(1) obtain cur below where stk: "stk = cur # below"
    by (cases stk) (auto simp: rooted_def)
  have gp: "rooted (guarded_pop (cur # below))"
    using assms(1) stk rooted_guarded_pop by blast
  have note_top: "type_in annotations cur \<Longrightarrow> below \<noteq> []"
    using assms(1) stk by (cases cur) (auto simp: rooted_def type_in_def)
  show ?thesis
    using assms(2) assms(1) gp note_top unfolding stk parse_line_def Let_def
    by (auto split: if_splits list.splits frame.splits sum.splits option.splits
             dest: rooted_push_event rooted_push_events rooted_pop_alt
             intro: rooted_push_frame simp: rooted_def[of "FNote _ _ _ _ # _"])
qed

lemma parse_lines_append:
  "parse_lines st (xs @ ys) =
     (case parse_lines st xs of Inl err \<Rightarrow> Inl err | Inr st' \<Rightarrow> parse_lines st' ys)"
  by (induction xs arbitrary: st) (auto split: sum.splits)

lemma rooted_parse_lines:
  "rooted stk \<Longrightarrow> parse_lines (actors, stk) ls = Inr (actors', stk') \<Longrightarrow> rooted stk'"
proof (induction ls arbitrary: actors stk)
  case Nil
  then show ?case by simp
next
  case (Cons l ls)
  from Cons.prems(2) obtain a1 s1 where
    step: "parse_line (actors, stk) l = Inr (a1, s1)" and
    rest: "parse_lines (a1, s1) ls = Inr (actors', stk')"
    by (auto split: sum.splits)
  from Cons.prems(1) step have "rooted s1" by (rule rooted_parse_line)
  then show ?case using rest by (rule Cons.IH)
qed

lemma end_at_root:
  assumes "command_of (trim l) = ''end''" and "rooted [f]"
  shows "parse_line (actors, [f]) l = Inr (actors, [f])"
  using assms by (cases f) (simp_all add: parse_line_end guarded_pop_def type_in_def rooted_def)

lemma add_if_missing_by_caption:
  "add_if_missing name actors =
     (if name \<in> a_caption ` set actors then actors
      else actors @ [new_actor ''participant'' name None])"
  by (auto simp: add_if_missing_def find_None_iff)

lemma push_events_on_array:
  "push_events es (FSeq k evs # below) = Inr (FSeq k (evs @ es) # below)"
  by (induction es arbitrary: evs) simp_all

lemma array_is_no_annotation: "\<not> type_in annotations (FSeq k evs)"
  by (simp add: type_in_def)

lemma actorDict_fold_dom:
  "dom (fold (\<lambda>(idx, val) dict. dict(a_caption val \<mapsto> idx)) (enumerate n actors) m) =
     dom m \<union> a_caption ` set actors"
proof (induction actors arbitrary: n m)
  case Nil
  show ?case by simp
next
  case (Cons a actors)
  have step: "fold (\<lambda>(idx, val) dict. dict(a_caption val \<mapsto> idx)) (enumerate n (a # actors)) m =
      fold (\<lambda>(idx, val) dict. dict(a_caption val \<mapsto> idx)) (enumerate (Suc n) actors)
        (m(a_caption a \<mapsto> n))"
    by (simp only: enumerate_simps fold_simps comp_apply prod.case)
  show ?case unfolding step Cons.IH by simp
qed

lemma actorDict_dom: "dom (actorDict actors) = a_caption ` set actors"
  by (simp add: actorDict_def actorDict_fold_dom)

section \<open>The parser: the properties claimed\<close>

text \<open>
  C1. The claim: for every script text \<^verbatim>\<open>parseScriptToArrays\<close> returns actors and
  events and never raises. On the script of the three lines \<^verbatim>\<open>alt x\<close>, \<^verbatim>\<open>}\<close>,
  \<^verbatim>\<open>A->B: hi\<close> the brace pops the case's array, the grouping object is left on top
  of the stack, and the signal line calls \<^verbatim>\<open>push\<close> on it: a TypeError.
\<close>

theorem brace_in_grouping_then_signal_raises:
  "parseScriptToArrays ''alt x\<newline>}\<newline>A->B: hi'' = Inl TypeError"
  by (simp add: parser_defs string_defs keyword_defs)

text \<open>
  C3. After every prefix of the lines of a script that the parser gets through, the
  stack has at least one entry; and a line whose command is \<^verbatim>\<open>end\<close>, met while
  the root array alone is on the stack, changes nothing: the state after it is the
  state before it, and the script without that line gives the same actors and events.
\<close>

theorem stack_keeps_root_and_end_at_root_is_noop:
  "(\<forall>n actors stk.
      parse_lines initial_state (take n (split_on [CHR 0x0A] script)) = Inr (actors, stk)
      \<longrightarrow> 1 \<le> length stk) \<and>
   (\<forall>ls l ls' script' actors f.
      split_on [CHR 0x0A] script = ls @ l # ls' \<and> split_on [CHR 0x0A] script' = ls @ ls' \<and>
      command_of (trim l) = ''end'' \<and> parse_lines initial_state ls = Inr (actors, [f])
      \<longrightarrow> parse_line (actors, [f]) l = Inr (actors, [f]) \<and>
          parseScriptToArrays script = parseScriptToArrays script')"
proof (intro conjI allI impI)
  fix n actors stk
  assume "parse_lines initial_state (take n (split_on [CHR 0x0A] script)) = Inr (actors, stk)"
  then have "rooted stk"
    using rooted_parse_lines[of "[FSeq Root []]" "[]"] by (simp add: initial_state_def rooted_def)
  then show "1 \<le> length stk" by (cases stk) (simp_all add: rooted_def)
next
  fix ls l ls' script' actors f
  assume h: "split_on [CHR 0x0A] script = ls @ l # ls' \<and> split_on [CHR 0x0A] script' = ls @ ls' \<and>
      command_of (trim l) = ''end'' \<and> parse_lines initial_state ls = Inr (actors, [f])"
  then have "rooted [f]"
    using rooted_parse_lines[of "[FSeq Root []]" "[]" ls actors "[f]"]
    by (simp add: initial_state_def rooted_def)
  with h have step: "parse_line (actors, [f]) l = Inr (actors, [f])"
    by (simp add: end_at_root)
  then show "parse_line (actors, [f]) l = Inr (actors, [f])" .
  from h step have "parse_lines initial_state (ls @ l # ls') = parse_lines initial_state (ls @ ls')"
    by (simp add: parse_lines_append)
  with h show "parseScriptToArrays script = parseScriptToArrays script'"
    by (simp add: parseScriptToArrays_def)
qed

theorem stack_keeps_root_and_end_at_root_is_noop_witness:
  "1 \<le> length (snd (projr (parse_lines initial_state (take 1 (split_on [CHR 0x0A] ''alt a\<newline>A->B: x''))))) \<and>
   parseScriptToArrays ''A->B: x\<newline>end\<newline>C->D: y'' = parseScriptToArrays ''A->B: x\<newline>C->D: y''"
proof -
  let ?s1 = "''alt a\<newline>A->B: x''"
  let ?s2 = "''A->B: x\<newline>end\<newline>C->D: y''"
  let ?s3 = "''A->B: x\<newline>C->D: y''"
  have r1: "parse_lines initial_state (take 1 (split_on [CHR 0x0A] ?s1)) =
      Inr ([], [FSeq (CaseOf ''a'') [], FAlt ''alt'' [], FSeq Root []])"
    by (simp add: parser_defs string_defs keyword_defs)
  have a: "1 \<le> length [FSeq (CaseOf ''a'') [], FAlt ''alt'' [], FSeq Root []]"
    using stack_keeps_root_and_end_at_root_is_noop[of ?s1] r1 by blast
  have sp2: "split_on [CHR 0x0A] ?s2 = [''A->B: x''] @ ''end'' # [''C->D: y'']" by simp
  have sp3: "split_on [CHR 0x0A] ?s3 = [''A->B: x''] @ [''C->D: y'']" by simp
  have cmd: "command_of (trim ''end'') = ''end''" by (simp add: string_defs)
  have r2: "parse_lines initial_state [''A->B: x''] =
      Inr ([new_actor ''participant'' ''A'' None, new_actor ''participant'' ''B'' None],
           [FSeq Root [Signal ''x'' ''A'' ''B'' False False geom0]])"
    by (simp add: parser_defs string_defs keyword_defs)
  have b: "parseScriptToArrays ?s2 = parseScriptToArrays ?s3"
    using stack_keeps_root_and_end_at_root_is_noop[of ?s2] sp2 sp3 cmd r2 by blast
  from a b r1 show ?thesis by simp
qed

text \<open>
  C5. The claim: the caption of a single-line annotation is everything after the first
  colon, later colons included. The annotation branch splits the text at every colon
  and keeps the second piece only: \<^verbatim>\<open>note right of A: a:b\<close> gets the caption \<^verbatim>\<open>a\<close>.
\<close>

theorem annotation_caption_stops_at_second_colon:
  "parseScriptToArrays ''note right of A: a:b'' =
     Inr ([], [Annotation ''note'' ''a'' ''right'' (Some ''A'') geom0])"
  by (simp add: parser_defs string_defs keyword_defs)

text \<open>
  C6. The claim: a signal that names a declared actor by its alias resolves to that
  actor, so that after \<^verbatim>\<open>participant Alice as A\<close> the line \<^verbatim>\<open>A->Alice: hi\<close>
  appends no participant. The parser looks actors up by caption alone: the line appends
  a bare participant with the caption \<^verbatim>\<open>A\<close>, and the signal runs from \<^verbatim>\<open>A\<close> to
  \<^verbatim>\<open>Alice\<close>.
\<close>

theorem alias_in_signal_creates_participant:
  "parseScriptToArrays ''participant Alice as A\<newline>A->Alice: hi'' =
     Inr ([new_actor ''participant'' ''Alice'' (Some ''A''), new_actor ''participant'' ''A'' None],
          [Signal ''hi'' ''A'' ''Alice'' False False geom0])"
  by (simp add: parser_defs string_defs keyword_defs)

text \<open>
  C6, as the code has it. A signal line resolves its source and its destination by
  caption alone, whatever aliases the actors carry: a name that is the caption of a listed
  actor appends nothing, and any other name appends a bare participant with that caption
  and no alias (the source first, then the destination). The keys of \<^verbatim>\<open>actorDict\<close>,
  by which layout finds the actors of a signal, are the captions too.
\<close>

theorem signal_resolves_actors_by_caption:
  assumes "\<not> is_keyword (command_of (trim line))"
    and "signal_fields (trim line) = Some sl"
  shows "(\<exists>stk'. parse_line (actors, FSeq k evs # below) line =
           Inr (let a1 = (if s_src sl \<in> a_caption ` set actors then actors
                          else actors @ [new_actor ''participant'' (s_src sl) None])
                in if s_dest sl \<in> a_caption ` set a1 then a1
                   else a1 @ [new_actor ''participant'' (s_dest sl) None], stk')) \<and>
         dom (actorDict actors) = a_caption ` set actors"
  using assms
  by (simp add: parse_line_other array_is_no_annotation push_events_on_array
        add_if_missing_by_caption Let_def actorDict_dom)

theorem signal_resolves_actors_by_caption_witness:
  "\<exists>stk'. parse_line ([new_actor ''participant'' ''Alice'' (Some ''A'')], [FSeq Root []]) ''Alice->Bob: hi'' =
     Inr ([new_actor ''participant'' ''Alice'' (Some ''A''), new_actor ''participant'' ''Bob'' None], stk')"
proof -
  have k: "\<not> is_keyword (command_of (trim ''Alice->Bob: hi''))"
    by (simp add: is_keyword_def string_defs keyword_defs)
  have f: "signal_fields (trim ''Alice->Bob: hi'') =
      Some \<lparr>s_caption = ''hi'', s_src = ''Alice'', s_dest = ''Bob'', s_dotted = False,
        s_open = False, s_newActor = False, s_isActivated = False, s_isDeactivated = False\<rparr>"
    by (simp add: signal_fields_def string_defs)
  show ?thesis
    using signal_resolves_actors_by_caption[OF k f, where actors = "[new_actor ''participant'' ''Alice'' (Some ''A'')]"
        and k = Root and evs = "[]" and below = "[]"]
    by (simp add: new_actor_def)
qed

text \<open>
  C7. The claim: a line that is no command produces no event when either side of the
  colon or either side of the arrow is missing. The test is \<^verbatim>\<open>caption && dest\<close>: an
  empty source passes it, and \<^verbatim>\<open>->B: hi\<close> appends a signal whose source is the empty
  string, with a participant of that caption.
\<close>

theorem empty_source_still_gives_signal:
  "parseScriptToArrays ''->B: hi'' =
     Inr ([new_actor ''participant'' '''' None, new_actor ''participant'' ''B'' None],
          [Signal ''hi'' '''' ''B'' False False geom0])"
  by (simp add: parser_defs string_defs keyword_defs)

text \<open>
  C7, as the code has it. For a line that is no command, read while no annotation is
  being collected: when the text after the first colon outside quotes is empty (or there
  is no such colon), or when the text before it has no \<^verbatim>\<open>->\<close> or nothing after its
  first \<^verbatim>\<open>->\<close>, the line changes neither the actors nor the stack.
\<close>

theorem signal_without_caption_or_destination_is_dropped:
  assumes "\<not> is_keyword (command_of (trim line))"
    and "\<not> type_in annotations cur"
    and "snd (splitOnColonEscaped (trim line)) = [] \<or>
         \<not> truthy (at_index (split_on ''->'' (fst (splitOnColonEscaped (trim line)))) 1)"
  shows "parse_line (actors, cur # below) line = Inr (actors, cur # below)"
proof -
  from assms(3) have "signal_fields (trim line) = None"
    by (auto simp: signal_fields_def Let_def split: prod.splits)
  with assms(1,2) show ?thesis by (simp add: parse_line_other)
qed

theorem signal_without_caption_or_destination_is_dropped_witness:
  "parse_line ([], [FSeq Root []]) ''A->B'' = Inr ([], [FSeq Root []]) \<and>
   parse_line ([], [FSeq Root []]) ''A: hi'' = Inr ([], [FSeq Root []])"
proof -
  have k1: "\<not> is_keyword (command_of (trim ''A->B''))"
    by (simp add: is_keyword_def string_defs keyword_defs)
  have c1: "snd (splitOnColonEscaped (trim ''A->B'')) = [] \<or>
      \<not> truthy (at_index (split_on ''->'' (fst (splitOnColonEscaped (trim ''A->B'')))) 1)"
    by (simp add: string_defs)
  have k2: "\<not> is_keyword (command_of (trim ''A: hi''))"
    by (simp add: is_keyword_def string_defs keyword_defs)
  have c2: "snd (splitOnColonEscaped (trim ''A: hi'')) = [] \<or>
      \<not> truthy (at_index (split_on ''->'' (fst (splitOnColonEscaped (trim ''A: hi'')))) 1)"
    by (simp add: string_defs)
  show ?thesis
    using signal_without_caption_or_destination_is_dropped[OF k1 _ c1,
        where cur = "FSeq Root []" and actors = "[]" and below = "[]"]
      signal_without_caption_or_destination_is_dropped[OF k2 _ c2,
        where cur = "FSeq Root []" and actors = "[]" and below = "[]"]
    by (simp add: array_is_no_annotation)
qed

text \<open>
  C8. The claim: an \<^verbatim>\<open>else\<close> line leaves the nesting state and the output unchanged
  unless the innermost open grouping is a conditional grouping. The branch pops one level
  before it looks at the type: inside a \<^verbatim>\<open>parallel\<close> block the line closes the
  block, and the signal after it lands in the root array.
\<close>

theorem else_in_parallel_closes_block:
  "parse_lines initial_state [''parallel''] =
     Inr ([], [FSeq (SyncOf ''parallel'') [], FSeq Root []]) \<and>
   parse_lines initial_state [''parallel'', ''else''] =
     Inr ([], [FSeq Root [Synchrony ''parallel'' []]]) \<and>
   parseScriptToArrays ''parallel\<newline>A->B: x'' =
     Inr ([new_actor ''participant'' ''A'' None, new_actor ''participant'' ''B'' None],
          [Synchrony ''parallel'' [Signal ''x'' ''A'' ''B'' False False geom0]]) \<and>
   parseScriptToArrays ''parallel\<newline>else\<newline>A->B: x'' =
     Inr ([new_actor ''participant'' ''A'' None, new_actor ''participant'' ''B'' None],
          [Synchrony ''parallel'' [], Signal ''x'' ''A'' ''B'' False False geom0])"
  by (simp add: parser_defs string_defs keyword_defs)

text \<open>
  C8, as the code has it. An \<^verbatim>\<open>else\<close> line pops one level when more than the root
  is open, and adds a case only when the level it exposes is a conditional grouping.
  With the root array alone on the stack it changes nothing; with the array of a
  \<^verbatim>\<open>parallel\<close>/\<^verbatim>\<open>serial\<close> block on top it closes that block and adds nothing;
  with the array of a case on top of its conditional grouping it closes the case and
  opens a new one whose caption is the rest of the line.
\<close>

theorem else_pops_then_adds_case_to_grouping:
  assumes "command_of (trim line) = ''else''"
  shows "parse_line (actors, [FSeq k evs]) line = Inr (actors, [FSeq k evs]) \<and>
         parse_line (actors, FSeq (SyncOf t) evs # FSeq k evs' # rest) line =
           Inr (actors, FSeq k (evs' @ [Synchrony t evs]) # rest) \<and>
         (t \<in> set conditionalGroupings \<longrightarrow>
           parse_line (actors, FSeq (CaseOf c) evs # FAlt t cs # rest) line =
             Inr (actors, FSeq (CaseOf (text_of (trim line))) [] # FAlt t (cs @ [Case c evs None]) # rest))"
  using assms
  by (simp add: parse_line_else array_is_no_annotation guarded_pop_def type_in_def)

theorem else_pops_then_adds_case_to_grouping_witness:
  "parse_line ([], [FSeq Root []]) ''else b'' = Inr ([], [FSeq Root []]) \<and>
   parse_line ([], [FSeq (SyncOf ''serial'') [], FSeq Root []]) ''else b'' =
     Inr ([], [FSeq Root [Synchrony ''serial'' []]]) \<and>
   parse_line ([], [FSeq (CaseOf ''a'') [], FAlt ''alt'' [], FSeq Root []]) ''else b'' =
     Inr ([], [FSeq (CaseOf ''b'') [], FAlt ''alt'' [Case ''a'' [] None], FSeq Root []])"
proof -
  have cmd: "command_of (trim ''else b'') = ''else''" by (simp add: string_defs)
  have rst: "text_of (trim ''else b'') = ''b''" by (simp add: string_defs)
  have mem: "''alt'' \<in> set conditionalGroupings" by (simp add: keyword_defs)
  show ?thesis
    using else_pops_then_adds_case_to_grouping[OF cmd, where actors = "[]" and k = Root
        and evs = "[]" and t = "''serial''" and evs' = "[]" and rest = "[]"]
      else_pops_then_adds_case_to_grouping[OF cmd, where actors = "[]" and k = Root
        and evs = "[]" and t = "''alt''" and c = "''a''" and cs = "[]" and rest = "[FSeq Root []]"]
      rst mem
    by simp
qed

text \<open>
  C9. A line \<^verbatim>\<open>activate X\<close>, \<^verbatim>\<open>deactivate X\<close> or \<^verbatim>\<open>destroy X\<close> appends to the
  current array an object with \<^verbatim>\<open>type\<close> and \<^verbatim>\<open>cases\<close> (one case, captioned with
  the rest of the line, no events) and no \<^verbatim>\<open>src\<close>; a signal whose destination
  carries \<^verbatim>\<open>+\<close> or \<^verbatim>\<open>-\<close> appends, after the signal, an object with \<^verbatim>\<open>type\<close>
  \<^verbatim>\<open>activate\<close> or \<^verbatim>\<open>deactivate\<close> and \<^verbatim>\<open>src\<close> (the destination) and no
  \<^verbatim>\<open>cases\<close>. Neither changes the depth of the stack nor any entry beneath the top.
\<close>

theorem explicit_and_implicit_lifetime_shapes:
  "(command_of (trim line) \<in> set lifetime \<longrightarrow>
      parse_line (actors, FSeq k evs # below) line =
        Inr (actors,
             FSeq k (evs @ [Grouping (command_of (trim line))
                               [Case (text_of (trim line)) [] None] geom0]) # below)) \<and>
   (\<not> is_keyword (command_of (trim line)) \<and> signal_fields (trim line) = Some sl \<longrightarrow>
      (\<exists>actors'. parse_line (actors, FSeq k evs # below) line =
        Inr (actors',
             FSeq k (evs @ [Signal (s_caption sl) (s_src sl) (s_dest sl) (s_dotted sl) (s_open sl) geom0]
                         @ (if s_isActivated sl then [Lifetime ''activate'' (s_dest sl)] else [])
                         @ (if s_isDeactivated sl then [Lifetime ''deactivate'' (s_dest sl)] else []))
             # below)))"
  by (simp add: parse_line_lifetime parse_line_other array_is_no_annotation
        push_events_on_array signal_events_def)

theorem explicit_and_implicit_lifetime_shapes_witness:
  "parse_line ([], [FSeq Root []]) ''activate X'' =
     Inr ([], [FSeq Root [Grouping ''activate'' [Case ''X'' [] None] geom0]]) \<and>
   (\<exists>actors'. parse_line ([], [FSeq Root []]) ''A->+-B: hi'' =
     Inr (actors', [FSeq Root [Signal ''hi'' ''A'' ''B'' False False geom0,
                               Lifetime ''activate'' ''B'', Lifetime ''deactivate'' ''B'']]))"
proof -
  have c1: "command_of (trim ''activate X'') \<in> set lifetime"
    by (simp add: string_defs keyword_defs)
  have v1: "command_of (trim ''activate X'') = ''activate''" "text_of (trim ''activate X'') = ''X''"
    by (simp_all add: string_defs)
  have k2: "\<not> is_keyword (command_of (trim ''A->+-B: hi''))"
    by (simp add: is_keyword_def string_defs keyword_defs)
  have f2: "signal_fields (trim ''A->+-B: hi'') =
      Some \<lparr>s_caption = ''hi'', s_src = ''A'', s_dest = ''B'', s_dotted = False,
        s_open = False, s_newActor = False, s_isActivated = True, s_isDeactivated = True\<rparr>"
    by (simp add: signal_fields_def string_defs)
  show ?thesis
    using explicit_and_implicit_lifetime_shapes[where line = "''activate X''" and actors = "[]"
        and k = Root and evs = "[]" and below = "[]"] c1 v1
      explicit_and_implicit_lifetime_shapes[where line = "''A->+-B: hi''" and actors = "[]"
        and k = Root and evs = "[]" and below = "[]"
        and sl = "\<lparr>s_caption = ''hi'', s_src = ''A'', s_dest = ''B'', s_dotted = False,
          s_open = False, s_newActor = False, s_isActivated = True, s_isDeactivated = True\<rparr>"]
      k2 f2
    by simp
qed

text \<open>
  C10. For a trimmed line with no space in it, the rest of the line is the whole line,
  command included: the line \<^verbatim>\<open>autonumber\<close> appends a numbering marker whose start
  is the string \<^verbatim>\<open>autonumber\<close>, and the line \<^verbatim>\<open>participant\<close> appends an actor
  whose caption is \<^verbatim>\<open>participant\<close>.
\<close>

theorem rest_of_spaceless_line_is_whole_line:
  "(CHR '' '' \<notin> set trimmedLine \<longrightarrow>
      text_of trimmedLine = trimmedLine \<and> command_of trimmedLine = trimmedLine) \<and>
   parseScriptToArrays ''autonumber'' = Inr ([], [Autonumber ''autonumber'']) \<and>
   parseScriptToArrays ''participant'' =
     Inr ([new_actor ''participant'' ''participant'' (Some ''participant'')], [])"
proof (intro conjI impI)
  assume "CHR '' '' \<notin> set trimmedLine"
  then show "text_of trimmedLine = trimmedLine" "command_of trimmedLine = trimmedLine"
    by (simp_all add: text_of_def command_of_def indexOf_def slice_from_def clamp_index_def)
next
  show "parseScriptToArrays ''autonumber'' = Inr ([], [Autonumber ''autonumber''])"
    by (simp add: parser_defs string_defs keyword_defs)
  show "parseScriptToArrays ''participant'' =
     Inr ([new_actor ''participant'' ''participant'' (Some ''participant'')], [])"
    by (simp add: parser_defs string_defs keyword_defs Let_def)
qed

theorem rest_of_spaceless_line_is_whole_line_witness:
  "CHR '' '' \<notin> set ''autonumber'' \<and> text_of ''autonumber'' = ''autonumber''"
  using rest_of_spaceless_line_is_whole_line[of "''autonumber''"] by simp

section \<open>Rounding to a double\<close>

lemma rne_floor: "\<lfloor>y\<rfloor> \<le> rne y" and rne_ceil: "rne y \<le> \<lfloor>y\<rfloor> + 1"
  by (simp_all add: rne_def Let_def)

lemma rne_of_int [simp]: "rne (of_int k) = k"
  by (simp add: rne_def)

lemma rne_ge: "of_int k \<le> y \<Longrightarrow> k \<le> rne y"
proof -
  assume "of_int k \<le> y"
  then have "k \<le> \<lfloor>y\<rfloor>" by (simp add: le_floor_iff)
  with rne_floor[of y] show ?thesis by linarith
qed

lemma rne_le: "y \<le> of_int k \<Longrightarrow> rne y \<le> k"
proof -
  assume h: "y \<le> of_int k"
  show ?thesis
  proof (cases "y = of_int k")
    case True
    then show ?thesis by simp
  next
    case False
    with h have "y < of_int k" by simp
    then have "\<lfloor>y\<rfloor> < k" by (simp add: floor_less_iff)
    with rne_ceil[of y] show ?thesis by linarith
  qed
qed

lemma bitlen_powi:
  assumes "0 < a"
  shows "(2::rat) powi (bitlen a - 1) \<le> of_int a" and "of_int a < (2::rat) powi bitlen a"
proof -
  from bitlen_bounds[OF assms] have b: "2 ^ nat (bitlen a - 1) \<le> a" "a < 2 ^ nat (bitlen a)"
    by auto
  from assms have p: "0 \<le> bitlen a - 1" by (auto simp: bitlen_alt_def)
  have "(2::rat) powi (bitlen a - 1) = of_int (2 ^ nat (bitlen a - 1))"
    using p by (simp add: power_int_def)
  also have "\<dots> \<le> of_int a" using b(1) by (simp only: of_int_le_iff)
  finally show "(2::rat) powi (bitlen a - 1) \<le> of_int a" .
  have "(of_int a :: rat) < of_int (2 ^ nat (bitlen a))" using b(2) by (simp only: of_int_less_iff)
  also have "\<dots> = 2 powi bitlen a" using p by (simp add: power_int_def)
  finally show "of_int a < (2::rat) powi bitlen a" .
qed

lemma binade_bounds:
  assumes "0 < x"
  shows "2 powi binade x \<le> x" and "x < 2 powi (binade x + 1)"
proof -
  obtain a b where q: "quotient_of x = (a, b)" by (cases "quotient_of x")
  then have b: "0 < b" and x: "x = of_int a / of_int b"
    by (simp_all add: quotient_of_denom_pos quotient_of_div)
  from assms x b have a: "0 < a" by (simp add: zero_less_divide_iff)
  define k where "k = bitlen a - bitlen b"
  note ba = bitlen_powi[OF a] and bb = bitlen_powi[OF b]
  have lo: "2 powi (k - 1) \<le> x"
  proof -
    have "(2::rat) powi (k - 1) * of_int b \<le> 2 powi (k - 1) * 2 powi bitlen b"
      using bb(2) by (intro mult_left_mono) simp_all
    also have "\<dots> = 2 powi (bitlen a - 1)"
      by (simp add: k_def power_int_add[symmetric])
    also have "\<dots> \<le> of_int a" by (rule ba(1))
    finally show ?thesis using b by (simp add: x pos_le_divide_eq)
  qed
  have hi: "x < 2 powi (k + 1)"
  proof -
    have "of_int a < (2::rat) powi bitlen a" by (rule ba(2))
    also have "\<dots> = 2 powi (k + 1) * 2 powi (bitlen b - 1)"
      by (simp add: k_def power_int_add[symmetric])
    also have "\<dots> \<le> 2 powi (k + 1) * of_int b"
      using bb(1) by (intro mult_left_mono) simp_all
    finally show ?thesis using b by (simp add: x pos_divide_less_eq)
  qed
  have bin: "binade x = (if 2 powi k \<le> x then k else k - 1)"
    by (simp add: binade_def q k_def Let_def)
  show "2 powi binade x \<le> x" using lo by (simp add: bin)
  show "x < 2 powi (binade x + 1)" using hi by (auto simp: bin not_le)
qed

lemma powi2_less_iff: "(2::rat) powi m < 2 powi n \<longleftrightarrow> m < n"
proof
  assume h: "(2::rat) powi m < 2 powi n"
  show "m < n"
  proof (rule ccontr)
    assume "\<not> m < n"
    then have "(2::rat) powi n \<le> 2 powi m" by (intro power_int_increasing) simp_all
    with h show False by simp
  qed
next
  assume "m < n"
  then show "(2::rat) powi m < 2 powi n" by (intro power_int_strict_increasing) simp_all
qed

lemma powi2_le_iff: "(2::rat) powi m \<le> 2 powi n \<longleftrightarrow> m \<le> n"
  using powi2_less_iff[of n m] by (auto simp: not_less[symmetric])

lemma binade_unique:
  assumes "2 powi k \<le> x" and "x < 2 powi (k + 1)"
  shows "binade x = k"
proof -
  have pos: "0 < x" using assms(1) by (rule less_le_trans[rotated]) simp
  note b = binade_bounds[OF pos]
  from b(1) assms(2) have "(2::rat) powi binade x < 2 powi (k + 1)" by simp
  then have 1: "binade x < k + 1" by (simp add: powi2_less_iff)
  from assms(1) b(2) have "(2::rat) powi k < 2 powi (binade x + 1)" by simp
  then have 2: "k < binade x + 1" by (simp add: powi2_less_iff)
  from 1 2 show ?thesis by simp
qed

lemma powi2_split: "(2::rat) powi (e + 1) = of_int (2 ^ 53) * 2 powi (e - 52)"
proof -
  have "(2::rat) powi (53 + (e - 52)) = 2 powi 53 * 2 powi (e - 52)"
    by (rule power_int_add) simp
  moreover have "53 + (e - 52) = e + 1" by simp
  moreover have "(2::rat) powi 53 = of_int (2 ^ 53)" by (simp add: power_int_def)
  ultimately show ?thesis by (simp only:)
qed

lemma powi2_split': "(2::rat) powi e = of_int (2 ^ 52) * 2 powi (e - 52)"
proof -
  have "(2::rat) powi (52 + (e - 52)) = 2 powi 52 * 2 powi (e - 52)"
    by (rule power_int_add) simp
  moreover have "52 + (e - 52) = e" by simp
  moreover have "(2::rat) powi 52 = of_int (2 ^ 52)" by (simp add: power_int_def)
  ultimately show ?thesis by (simp only:)
qed

lemma unit_pos: "0 < (2::rat) powi e"
  by simp

lemma to_double_pos_eq:
  "0 < x \<Longrightarrow> to_double x = of_int (rne (x / 2 powi (binade x - 52))) * 2 powi (binade x - 52)"
  by (simp add: to_double_def Let_def)

lemma mantissa_bounds:
  assumes "0 < x"
  shows "2 ^ 52 \<le> rne (x / 2 powi (binade x - 52))" and "rne (x / 2 powi (binade x - 52)) \<le> 2 ^ 53"
proof -
  let ?u = "(2::rat) powi (binade x - 52)"
  note b = binade_bounds[OF assms]
  from b(1) have "of_int (2 ^ 52) * ?u \<le> x"
    by (subst (asm) powi2_split')
  then have "of_int (2 ^ 52) \<le> x / ?u" by (simp add: pos_le_divide_eq)
  then show "2 ^ 52 \<le> rne (x / ?u)" by (rule rne_ge)
  from b(2) have "x \<le> of_int (2 ^ 53) * ?u"
    by (subst (asm) powi2_split) (rule less_imp_le)
  then have "x / ?u \<le> of_int (2 ^ 53)" by (simp add: pos_divide_le_eq)
  then show "rne (x / ?u) \<le> 2 ^ 53" by (rule rne_le)
qed

lemma to_double_pos: "0 < x \<Longrightarrow> 0 < to_double x"
proof -
  assume x: "0 < x"
  have "(0::int) < 2 ^ 52" by simp
  with mantissa_bounds(1)[OF x] have "0 < rne (x / 2 powi (binade x - 52))" by linarith
  then show ?thesis by (simp add: to_double_pos_eq[OF x])
qed

lemma to_double_minus: "to_double (- x) = - to_double x"
  by (simp add: to_double_def Let_def)

lemma to_double_zero [simp]: "to_double 0 = 0"
  by (simp add: to_double_def)

lemma fixed_mantissa:
  assumes "0 < r" and "to_double r = r"
  shows "r / 2 powi (binade r - 52) = of_int (rne (r / 2 powi (binade r - 52)))"
proof -
  from assms have "r = of_int (rne (r / 2 powi (binade r - 52))) * 2 powi (binade r - 52)"
    by (simp add: to_double_pos_eq)
  then have "r / 2 powi (binade r - 52) =
      of_int (rne (r / 2 powi (binade r - 52))) * 2 powi (binade r - 52) / 2 powi (binade r - 52)"
    by simp
  then show ?thesis by simp
qed

lemma to_double_lower_pos:
  assumes r: "0 < r" and fixed: "to_double r = r" and le: "r \<le> x"
  shows "r \<le> to_double x"
proof -
  from r le have x: "0 < x" by simp
  let ?u = "(2::rat) powi (binade x - 52)"
  let ?m = "rne (x / ?u)"
  note br = binade_bounds[OF r] and bx = binade_bounds[OF x]
  from br(1) le bx(2) have "(2::rat) powi binade r < 2 powi (binade x + 1)" by simp
  then have cmp: "binade r \<le> binade x" by (simp add: powi2_less_iff)
  show ?thesis
  proof (cases "binade r = binade x")
    case True
    from fixed_mantissa[OF r fixed] True have rm: "r / ?u = of_int (rne (r / ?u))" by simp
    from le have "r / ?u \<le> x / ?u" by (simp add: divide_right_mono)
    with rm have "of_int (rne (r / ?u)) \<le> x / ?u" by simp
    then have "rne (r / ?u) \<le> ?m" by (rule rne_ge)
    then have "(of_int (rne (r / ?u)) :: rat) \<le> of_int ?m" by (simp only: of_int_le_iff)
    then have "of_int (rne (r / ?u)) * ?u \<le> of_int ?m * ?u"
      by (intro mult_right_mono) simp_all
    moreover have "of_int (rne (r / ?u)) * ?u = r" using rm[symmetric] by simp
    ultimately show ?thesis by (simp add: to_double_pos_eq[OF x])
  next
    case False
    with cmp have "binade r + 1 \<le> binade x" by simp
    then have "(2::rat) powi (binade r + 1) \<le> 2 powi binade x" by (simp add: powi2_le_iff)
    with br(2) have "r < 2 powi binade x" by simp
    also have "\<dots> = of_int (2 ^ 52) * ?u"
      by (rule powi2_split')
    also have "\<dots> \<le> of_int ?m * ?u"
      using mantissa_bounds(1)[OF x] by (intro mult_right_mono) (simp_all only: of_int_le_iff unit_pos less_imp_le)
    finally show ?thesis by (simp add: to_double_pos_eq[OF x])
  qed
qed

lemma to_double_upper_pos:
  assumes x: "0 < x" and fixed: "to_double r = r" and le: "x \<le> r"
  shows "to_double x \<le> r"
proof -
  from x le have r: "0 < r" by simp
  let ?u = "(2::rat) powi (binade x - 52)"
  let ?m = "rne (x / ?u)"
  note br = binade_bounds[OF r] and bx = binade_bounds[OF x]
  from bx(1) le br(2) have "(2::rat) powi binade x < 2 powi (binade r + 1)" by simp
  then have cmp: "binade x \<le> binade r" by (simp add: powi2_less_iff)
  show ?thesis
  proof (cases "binade r = binade x")
    case True
    from fixed_mantissa[OF r fixed] True have rm: "r / ?u = of_int (rne (r / ?u))" by simp
    from le have "x / ?u \<le> r / ?u" by (simp add: divide_right_mono)
    with rm have "x / ?u \<le> of_int (rne (r / ?u))" by simp
    then have "?m \<le> rne (r / ?u)" by (rule rne_le)
    then have "(of_int ?m :: rat) \<le> of_int (rne (r / ?u))" by (simp only: of_int_le_iff)
    then have "of_int ?m * ?u \<le> of_int (rne (r / ?u)) * ?u"
      by (intro mult_right_mono) simp_all
    moreover have "of_int (rne (r / ?u)) * ?u = r" using rm[symmetric] by simp
    ultimately show ?thesis by (simp add: to_double_pos_eq[OF x])
  next
    case False
    with cmp have "binade x + 1 \<le> binade r" by simp
    then have up: "(2::rat) powi (binade x + 1) \<le> 2 powi binade r" by (simp add: powi2_le_iff)
    have "of_int ?m * ?u \<le> of_int (2 ^ 53) * ?u"
      using mantissa_bounds(2)[OF x] by (intro mult_right_mono) (simp_all only: of_int_le_iff unit_pos less_imp_le)
    also have "\<dots> = 2 powi (binade x + 1)"
      by (rule powi2_split[symmetric])
    also note up
    also note br(1)
    finally show ?thesis by (simp add: to_double_pos_eq[OF x])
  qed
qed

lemma to_double_idem_pos:
  assumes x: "0 < x"
  shows "to_double (to_double x) = to_double x"
proof -
  let ?E = "binade x"
  let ?u = "(2::rat) powi (?E - 52)"
  let ?m = "rne (x / ?u)"
  let ?v = "of_int ?m * ?u"
  have v: "to_double x = ?v" by (rule to_double_pos_eq[OF x])
  have vpos: "0 < ?v" using to_double_pos[OF x] v by simp
  note mb = mantissa_bounds[OF x]
  show ?thesis
  proof (cases "?m = 2 ^ 53")
    case True
    have veq: "?v = 2 powi (?E + 1)"
      unfolding True by (rule powi2_split[symmetric])
    have "binade ?v = ?E + 1"
      unfolding veq by (rule binade_unique) (simp_all add: powi2_less_iff)
    then have "to_double ?v = of_int (rne (?v / 2 powi (?E + 1 - 52))) * 2 powi (?E + 1 - 52)"
      using to_double_pos_eq[OF vpos] by simp
    also have "?v / 2 powi (?E + 1 - 52) = of_int (2 ^ 52)"
      unfolding veq by (subst powi2_split'[of "?E + 1"]) simp
    also have "of_int (rne (of_int (2 ^ 52))) * (2::rat) powi (?E + 1 - 52) = 2 powi (?E + 1)"
      by (subst powi2_split'[of "?E + 1"]) (simp only: rne_of_int)
    finally show ?thesis unfolding v veq .
  next
    case False
    with mb(2) have lt: "?m < 2 ^ 53" by simp
    have lo: "2 powi ?E \<le> ?v"
    proof -
      have "(2::rat) powi ?E = of_int (2 ^ 52) * ?u"
        by (rule powi2_split')
      also have "\<dots> \<le> ?v"
        using mb(1) by (intro mult_right_mono) (simp_all only: of_int_le_iff unit_pos less_imp_le)
      finally show ?thesis .
    qed
    have hi: "?v < 2 powi (?E + 1)"
    proof -
      have "?v < of_int (2 ^ 53) * ?u"
        using lt by (intro mult_strict_right_mono) (simp_all only: of_int_less_iff unit_pos)
      also have "\<dots> = 2 powi (?E + 1)"
        by (rule powi2_split[symmetric])
      finally show ?thesis .
    qed
    have "binade ?v = ?E" using lo hi by (rule binade_unique)
    then have "to_double ?v = of_int (rne (?v / ?u)) * ?u"
      using to_double_pos_eq[OF vpos] by simp
    also have "?v / ?u = of_int ?m" by simp
    finally show ?thesis unfolding v by (simp only: rne_of_int)
  qed
qed

lemma to_double_idem: "to_double (to_double x) = to_double x"
proof -
  consider "x = 0" | "0 < x" | "x < 0" by linarith
  then show ?thesis
  proof cases
    case 1
    then show ?thesis by simp
  next
    case 2
    then show ?thesis by (rule to_double_idem_pos)
  next
    case 3
    then have "0 < - x" by simp
    from to_double_idem_pos[OF this] show ?thesis by (simp add: to_double_minus)
  qed
qed

lemma to_double_lower:
  assumes fixed: "to_double r = r" and le: "r \<le> x"
  shows "r \<le> to_double x"
proof -
  consider "x = 0" | "0 < x" "r \<le> 0" | "0 < x" "0 < r" | "x < 0" by linarith
  then show ?thesis
  proof cases
    case 1
    with le show ?thesis by simp
  next
    case 2
    with to_double_pos[of x] show ?thesis by simp
  next
    case 3
    from 3(2) fixed le show ?thesis by (rule to_double_lower_pos)
  next
    case 4
    then have nx: "0 < - x" by simp
    from fixed have nfix: "to_double (- r) = - r" by (simp add: to_double_minus)
    from le have "- x \<le> - r" by simp
    from to_double_upper_pos[OF nx nfix this] show ?thesis by (simp add: to_double_minus)
  qed
qed

lemma dadd_is_double: "to_double (dadd a b) = dadd a b"
  by (simp add: dadd_def to_double_idem)

lemma dadd_grows: "to_double g = g \<Longrightarrow> 0 < e \<Longrightarrow> g \<le> dadd g e"
  unfolding dadd_def by (rule to_double_lower) simp_all


section \<open>Layout: the loops of calculatePlacements\<close>

lemmas layout_defs = calculatePlacements_def actorDict_def dict_get_def key_of_def lane_index_def
  entry_lineX_def raise_gap_def spread_gap_def size_actor_def place_actor_def nadd_def nsub_def
  nmax_def calculateTextDimensionsAscii_def ascii_sizes_def layoutAscii_def
  object_prototype_keys_def array_prototype_keys_def inherited_keys_def

lemma doubles_replicate: "doubles (replicate n 0)"
  by (simp add: doubles_def)

lemma doubles_update: "doubles xs \<Longrightarrow> to_double v = v \<Longrightarrow> doubles (xs[k := v])"
  unfolding doubles_def using set_update_subset_insert[of xs k v] by auto

lemma doubles_nth: "doubles xs \<Longrightarrow> k < length xs \<Longrightarrow> to_double (xs ! k) = xs ! k"
  by (simp add: doubles_def)

lemma size_actor_step:
  assumes "size_actor sz n (a1, g1) = (actors', gaps')" and "n < length a1"
  shows "length actors' = length a1" and "length gaps' = length g1"
    and "a_width (actors' ! n) =
      Some (dadd (b_width (calculateTextDimensions sz (a_caption (a1 ! n)))) (dmul 2 (padding sz)))"
    and "\<forall>i. i \<noteq> n \<longrightarrow> actors' ! i = a1 ! i"
    and "doubles g1 \<longrightarrow> doubles gaps'"
  using assms
  by (auto simp: size_actor_def Let_def intro!: doubles_update dadd_is_double)

lemma size_actors_loop:
  assumes "n \<le> length actors"
    and "fold (size_actor sz) [0..<n] (actors, gaps) = (actors', gaps')"
  shows "length actors' = length actors \<and> length gaps' = length gaps \<and>
         (doubles gaps \<longrightarrow> doubles gaps') \<and>
         (\<forall>i<n. a_width (actors' ! i) =
                  Some (dadd (b_width (calculateTextDimensions sz (a_caption (actors ! i))))
                          (dmul 2 (padding sz)))) \<and>
         (\<forall>i. n \<le> i \<longrightarrow> actors' ! i = actors ! i)"
  using assms
proof (induction n arbitrary: actors' gaps')
  case 0
  then show ?case by simp
next
  case (Suc n)
  obtain a1 g1 where mid: "fold (size_actor sz) [0..<n] (actors, gaps) = (a1, g1)"
    by (cases "fold (size_actor sz) [0..<n] (actors, gaps)") auto
  from Suc.prems(1) have "n \<le> length actors" by simp
  from Suc.IH[OF this mid] have
    ih: "length a1 = length actors" "length g1 = length gaps" "doubles gaps \<longrightarrow> doubles g1"
      "\<forall>i<n. a_width (a1 ! i) =
          Some (dadd (b_width (calculateTextDimensions sz (a_caption (actors ! i)))) (dmul 2 (padding sz)))"
      "\<forall>i. n \<le> i \<longrightarrow> a1 ! i = actors ! i"
    by auto
  from Suc.prems(2) mid have step: "size_actor sz n (a1, g1) = (actors', gaps')"
    by simp
  from Suc.prems(1) ih(1) have n: "n < length a1" by simp
  note st = size_actor_step[OF step n]
  show ?case
  proof (intro conjI allI impI)
    show "length actors' = length actors" using st(1) ih(1) by simp
    show "length gaps' = length gaps" using st(2) ih(2) by simp
  next
    assume "doubles gaps"
    with ih(3) st(5) show "doubles gaps'" by simp
  next
    fix i assume "i < Suc n"
    then consider "i < n" | "i = n" by linarith
    then show "a_width (actors' ! i) =
        Some (dadd (b_width (calculateTextDimensions sz (a_caption (actors ! i)))) (dmul 2 (padding sz)))"
    proof cases
      case 1
      with st(4) ih(4) show ?thesis by simp
    next
      case 2
      with st(3) ih(5) show ?thesis by simp
    qed
  next
    fix i assume "Suc n \<le> i"
    with st(4) ih(5) show "actors' ! i = actors ! i" by simp
  qed
qed

lemma gaps_le_refl: "gaps_le xs xs"
  by (simp add: gaps_le_def)

lemma gaps_le_trans: "gaps_le xs ys \<Longrightarrow> gaps_le ys zs \<Longrightarrow> gaps_le xs zs"
  by (auto simp: gaps_le_def intro: order_trans)

lemma gaps_le_update: "(k < length xs \<Longrightarrow> xs ! k \<le> v) \<Longrightarrow> gaps_le xs (xs[k := v])"
proof -
  assume h: "k < length xs \<Longrightarrow> xs ! k \<le> v"
  have "xs ! m \<le> xs[k := v] ! m" if "m < length xs" for m
    using that h by (cases "m = k") simp_all
  then show ?thesis by (simp add: gaps_le_def)
qed

lemma raise_gap_grows: "gaps_le gaps (raise_gap gaps g)"
proof (cases g)
  case (fields a b w)
  show ?thesis
  proof (cases a)
    case None
    with fields show ?thesis by (simp add: raise_gap_def gaps_le_refl)
  next
    case (Some i)
    note a = this
    show ?thesis
    proof (cases b)
      case None
      with fields a show ?thesis by (simp add: raise_gap_def gaps_le_refl)
    next
      case (Some j)
      with fields a show ?thesis
        by (auto simp: raise_gap_def Let_def gaps_le_def nth_list_update)
    qed
  qed
qed

lemma raise_gap_doubles:
  "doubles gaps \<Longrightarrow> to_double (snd (snd g)) = snd (snd g) \<Longrightarrow> doubles (raise_gap gaps g)"
  by (cases g) (auto simp: raise_gap_def Let_def split: option.splits intro!: doubles_update)

lemma raise_gap_reaches:
  assumes "max i j = min i j + 1" and "max i j < length gaps"
  shows "w \<le> raise_gap gaps (Some i, Some j, w) ! max i j"
  using assms by (auto simp: raise_gap_def Let_def)

lemma raise_gaps_grow: "gaps_le gaps (fold (\<lambda>g gaps. raise_gap gaps g) ts gaps)"
proof (induction ts arbitrary: gaps)
  case Nil
  show ?case by (simp add: gaps_le_refl)
next
  case (Cons t ts)
  have "gaps_le gaps (raise_gap gaps t)" by (rule raise_gap_grows)
  moreover have "gaps_le (raise_gap gaps t) (fold (\<lambda>g gaps. raise_gap gaps g) ts (raise_gap gaps t))"
    by (rule Cons.IH)
  ultimately show ?case by (auto intro: gaps_le_trans)
qed

lemma raise_gaps_doubles:
  "doubles gaps \<Longrightarrow> \<forall>t\<in>set ts. to_double (snd (snd t)) = snd (snd t) \<Longrightarrow>
   doubles (fold (\<lambda>g gaps. raise_gap gaps g) ts gaps)"
  by (induction ts arbitrary: gaps) (simp_all add: raise_gap_doubles)

lemma raise_gaps_reach:
  assumes "(Some i, Some j, w) \<in> set ts"
    and "max i j = min i j + 1" and "max i j < length gaps"
  shows "w \<le> fold (\<lambda>g gaps. raise_gap gaps g) ts gaps ! max i j"
  using assms
proof (induction ts arbitrary: gaps)
  case Nil
  then show ?case by simp
next
  case (Cons t ts)
  have grow: "gaps_le gaps (raise_gap gaps t)" by (rule raise_gap_grows)
  then have len: "length (raise_gap gaps t) = length gaps" by (simp add: gaps_le_def)
  show ?case
  proof (cases "t = (Some i, Some j, w)")
    case True
    have "w \<le> raise_gap gaps t ! max i j"
      unfolding True using Cons.prems(2,3) by (rule raise_gap_reaches)
    moreover have "gaps_le (raise_gap gaps t) (fold (\<lambda>g gaps. raise_gap gaps g) ts (raise_gap gaps t))"
      by (rule raise_gaps_grow)
    ultimately show ?thesis
      using Cons.prems(3) len by (auto simp: gaps_le_def intro: order_trans)
  next
    case False
    with Cons.prems(1) have "(Some i, Some j, w) \<in> set ts" by simp
    from Cons.IH[OF this Cons.prems(2)] Cons.prems(3) len show ?thesis by simp
  qed
qed

lemma add_extra_grows:
  assumes "0 < e" and "doubles gaps"
  shows "gaps_le gaps (fold (\<lambda>j gaps. gaps[j + 1 := dadd (gaps ! (j + 1)) e]) js gaps) \<and>
         doubles (fold (\<lambda>j gaps. gaps[j + 1 := dadd (gaps ! (j + 1)) e]) js gaps)"
  using assms(2)
proof (induction js arbitrary: gaps)
  case Nil
  then show ?case by (simp add: gaps_le_refl)
next
  case (Cons j js)
  let ?g = "gaps[j + 1 := dadd (gaps ! (j + 1)) e]"
  have "gaps_le gaps ?g"
    using assms(1) Cons.prems by (intro gaps_le_update dadd_grows doubles_nth)
  moreover have d: "doubles ?g"
    using Cons.prems by (intro doubles_update dadd_is_double)
  moreover note Cons.IH[OF d]
  ultimately show ?case by (auto intro: gaps_le_trans)
qed

lemma add_extra_grows_Suc:
  "0 < e \<Longrightarrow> doubles gaps \<Longrightarrow>
   gaps_le gaps (fold (\<lambda>j gaps. gaps[Suc j := dadd (gaps ! Suc j) e]) js gaps) \<and>
   doubles (fold (\<lambda>j gaps. gaps[Suc j := dadd (gaps ! Suc j) e]) js gaps)"
  using add_extra_grows[of e gaps js] by simp

lemma spread_gap_grows:
  assumes "doubles gaps"
  shows "gaps_le gaps (spread_gap gaps g) \<and> doubles (spread_gap gaps g)"
proof (cases g)
  case (fields a b w)
  show ?thesis
  proof (cases a)
    case None
    with fields assms show ?thesis by (simp add: spread_gap_def gaps_le_refl)
  next
    case (Some i)
    note a = this
    show ?thesis
    proof (cases b)
      case None
      with fields a assms show ?thesis by (simp add: spread_gap_def gaps_le_refl)
    next
      case (Some j)
      with fields a assms show ?thesis
        by (simp add: spread_gap_def Let_def gaps_le_refl add_extra_grows_Suc)
    qed
  qed
qed

lemma spread_gaps_grow:
  "doubles gaps \<Longrightarrow>
   gaps_le gaps (fold (\<lambda>g gaps. spread_gap gaps g) ts gaps) \<and>
   doubles (fold (\<lambda>g gaps. spread_gap gaps g) ts gaps)"
proof (induction ts arbitrary: gaps)
  case Nil
  then show ?case by (simp add: gaps_le_refl)
next
  case (Cons t ts)
  from spread_gap_grows[OF Cons.prems, of t] have
    1: "gaps_le gaps (spread_gap gaps t)" and 2: "doubles (spread_gap gaps t)" by simp_all
  from Cons.IH[OF 2] 1 show ?case by (auto intro: gaps_le_trans)
qed

lemma place_actors_loop:
  assumes "n \<le> length actors"
    and "fold (place_actor sz gaps) [0..<n] (actors, gaps ! 0, mh0) = (actors', off, mh)"
  shows "length actors' = length actors \<and> off = lane_centre gaps n \<and>
         (\<forall>i<n. a_lineX (actors' ! i) = Some (lane_centre gaps i) \<and>
                 a_width (actors' ! i) = a_width (actors ! i)) \<and>
         (\<forall>i. n \<le> i \<longrightarrow> actors' ! i = actors ! i)"
  using assms
proof (induction n arbitrary: actors' off mh)
  case 0
  then show ?case by simp
next
  case (Suc n)
  obtain a1 o1 m1 where mid: "fold (place_actor sz gaps) [0..<n] (actors, gaps ! 0, mh0) = (a1, o1, m1)"
    by (cases "fold (place_actor sz gaps) [0..<n] (actors, gaps ! 0, mh0)") auto
  from Suc.prems have "n \<le> length actors" by simp
  from Suc.IH[OF this mid] have
    ih: "length a1 = length actors" "o1 = lane_centre gaps n"
      "\<forall>i<n. a_lineX (a1 ! i) = Some (lane_centre gaps i) \<and>
              a_width (a1 ! i) = a_width (actors ! i)"
      "\<forall>i. n \<le> i \<longrightarrow> a1 ! i = actors ! i"
    by auto
  from Suc.prems(2) mid have step: "place_actor sz gaps n (a1, o1, m1) = (actors', off, mh)"
    by simp
  from Suc.prems(1) ih(1) have n: "n < length a1" by simp
  from step have upd: "actors' = a1[n := actors' ! n]" and len: "length actors' = length a1"
    and off: "off = dadd o1 (gaps ! Suc n)"
    and lx: "a_lineX (actors' ! n) = Some o1" and wd: "a_width (actors' ! n) = a_width (a1 ! n)"
    using n by (auto simp: place_actor_def Let_def)
  from upd have keep: "\<forall>i. i \<noteq> n \<longrightarrow> actors' ! i = a1 ! i"
    by (metis nth_list_update_neq)
  show ?case
  proof (intro conjI allI impI)
    show "length actors' = length actors" using len ih(1) by simp
    show "off = lane_centre gaps (Suc n)" using off ih(2) by simp
  next
    fix i assume "i < Suc n"
    then consider "i < n" | "i = n" by linarith
    then show "a_lineX (actors' ! i) = Some (lane_centre gaps i)"
    proof cases
      case 1
      with keep ih(3) show ?thesis by simp
    next
      case 2
      with lx ih(2) show ?thesis by simp
    qed
  next
    fix i assume "i < Suc n"
    then consider "i < n" | "i = n" by linarith
    then show "a_width (actors' ! i) = a_width (actors ! i)"
    proof cases
      case 1
      with keep ih(3) show ?thesis by simp
    next
      case 2
      with wd ih(4) show ?thesis by simp
    qed
  next
    fix i assume "Suc n \<le> i"
    with keep ih(4) show "actors' ! i = actors ! i" by simp
  qed
qed

lemma actorDict_fold_range:
  "fold (\<lambda>(idx, val) dict. dict(a_caption val \<mapsto> idx)) (enumerate n actors) m key = Some i
   \<Longrightarrow> m key = Some i \<or> (n \<le> i \<and> i < n + length actors)"
proof (induction actors arbitrary: n m)
  case Nil
  then show ?case by simp
next
  case (Cons a actors)
  from Cons.prems have
    "fold (\<lambda>(idx, val) dict. dict(a_caption val \<mapsto> idx)) (enumerate (Suc n) actors)
       (m(a_caption a \<mapsto> n)) key = Some i"
    by (simp only: enumerate_simps fold_simps comp_apply prod.case)
  from Cons.IH[OF this] show ?case by (auto split: if_splits)
qed

lemma actorDict_range: "actorDict actors key = Some i \<Longrightarrow> i < length actors"
  using actorDict_fold_range[of 0 actors Map.empty key i] by (simp add: actorDict_def)

lemma lane_index_range:
  "lane_index (dict_get proto (actorDict actors) key) = Some i \<Longrightarrow> i < length actors"
  by (auto simp: lane_index_def dict_get_def split: option.splits if_splits dest: actorDict_range)

lemma triples_in_range:
  "(\<forall>i j w. (Some i, Some j, w) \<in>
        set (fst (calculateLaneGapsAndTextSize (dict_get proto (actorDict actors)) sz es))
      \<longrightarrow> max i j \<le> length actors)"
  "(\<forall>i j w. (Some i, Some j, w) \<in>
        set (fst (caseLaneGaps (dict_get proto (actorDict actors)) sz cs))
      \<longrightarrow> max i j \<le> length actors)"
proof (induction "dict_get proto (actorDict actors)" sz es and "dict_get proto (actorDict actors)" sz cs
    rule: calculateLaneGapsAndTextSize_caseLaneGaps.induct)
  case (2 sz c src dest dt opn g es)
  from "2.hyps"[OF refl refl] show ?case
    by (auto simp: Let_def split_beta dest!: lane_index_range[OF sym] split: if_splits)
next
  case (3 sz t c al src g es)
  from "3.hyps"[OF refl] show ?case
    by (cases "lane_index (dict_get proto (actorDict actors) (key_of src))")
       (auto simp: Let_def split_beta dest!: lane_index_range split: if_splits)
next
  case (4 sz t cs g es)
  show ?case
  proof (cases "t = ''alt''")
    case True
    from "4.hyps"(1)[OF True] "4.hyps"(2)[OF True refl prod.collapse] True
    show ?thesis by (simp add: split_beta) blast
  next
    case False
    from "4.hyps"(3)[OF False] False show ?thesis by (simp add: split_beta)
  qed
next
  case (9 sz c evs h cs)
  from "9.hyps"(1) "9.hyps"(2)[OF refl prod.collapse]
  show ?case by (simp add: split_beta) blast
qed (auto simp: Let_def split_beta split: if_splits)

lemma triples_are_doubles:
  "\<forall>t\<in>set (fst (calculateLaneGapsAndTextSize dict sz es)). to_double (snd (snd t)) = snd (snd t)"
  "\<forall>t\<in>set (fst (caseLaneGaps dict sz cs)). to_double (snd (snd t)) = snd (snd t)"
proof (induction dict sz es and dict sz cs
    rule: calculateLaneGapsAndTextSize_caseLaneGaps.induct)
  case (2 dict sz c src dest dt opn g es)
  from "2.IH"[OF refl refl] show ?case
    by (auto simp: Let_def split_beta dadd_is_double split: if_splits)
next
  case (3 dict sz t c al src g es)
  from "3.IH"[OF refl] show ?case
    by (auto simp: Let_def split_beta dadd_is_double split: if_splits)
next
  case (4 dict sz t cs g es)
  show ?case
  proof (cases "t = ''alt''")
    case True
    from "4.IH"(1)[OF True] "4.IH"(2)[OF True refl prod.collapse] True
    show ?thesis by (simp add: split_beta) blast
  next
    case False
    from "4.IH"(3)[OF False] False show ?thesis by (simp add: split_beta)
  qed
next
  case (9 dict sz c evs h cs)
  from "9.IH"(1) "9.IH"(2)[OF refl prod.collapse]
  show ?case by (simp add: split_beta) blast
qed (auto simp: Let_def split_beta split: if_splits)

lemma caseLaneGaps_concat:
  "fst (caseLaneGaps dict sz cs) =
     concat (map (\<lambda>c. fst (calculateLaneGapsAndTextSize dict sz (case_events c))) cs)"
proof (induction cs)
  case Nil
  show ?case by simp
next
  case (Cons c cs)
  then show ?case by (cases c) (simp add: split_beta)
qed

lemma placeCases_walk:
  "placeCases dict actors sz totalWidth cs y altHeight = Inr (endY, altHeight', cs') \<Longrightarrow>
     cases_walk dict actors sz totalWidth cs y cs' endY \<and>
     altHeight' = foldl nadd altHeight (map case_height cs')"
proof (induction cs arbitrary: y altHeight cs')
  case Nil
  then show ?case by auto
next
  case (Cons c cs)
  obtain cap evs h where c: "c = Case cap evs h" by (cases c)
  from Cons.prems obtain y1 evs' rest where
    ev: "calculateEventPlacements dict actors sz totalWidth evs y = Inr (y1, evs')" and
    tl: "placeCases dict actors sz totalWidth cs y1 (nadd altHeight (nsub y1 y)) = Inr (endY, altHeight', rest)" and
    out: "cs' = Case cap evs' (nsub y1 y) # rest"
    unfolding c by (auto simp: Let_def split: sum.splits)
  from Cons.IH[OF tl] have "cases_walk dict actors sz totalWidth cs y1 rest endY"
    and "altHeight' = foldl nadd (nadd altHeight (nsub y1 y)) (map case_height rest)"
    by simp_all
  with ev out show ?case unfolding c by simp
qed

section \<open>Layout: the properties claimed\<close>

text \<open>
  C2. The claim: the walk that collects the gaps and the walk that places the events
  descend into the cases of every grouping of kind alt, opt, loop, par or seq. Both walks
  test for the type \<^verbatim>\<open>alt\<close> only: for the script \<^verbatim>\<open>opt x\<close>, \<^verbatim>\<open>A->B: hi\<close>,
  \<^verbatim>\<open>end\<close> the layout leaves the grouping and the signal in it without any position
  or size, and the signal's caption widens no gap.
\<close>

theorem opt_grouping_is_not_laid_out:
  "layoutAscii ''opt x\<newline>A->B: hi\<newline>end'' =
     Inr \<lparr>p_actors =
            [\<lparr>a_type = ''participant'', a_caption = ''A'', a_alias = None, a_width = Some 3,
               a_height = Some 3, a_lineX = Some (5 / 2), a_x = Some 1, a_y = Some 1,
               a_lineY = Some 6\<rparr>,
             \<lparr>a_type = ''participant'', a_caption = ''B'', a_alias = None, a_width = Some 3,
               a_height = Some 3, a_lineX = Some (15 / 2), a_x = Some 6, a_y = Some 1,
               a_lineY = Some 6\<rparr>],
          p_events =
            [Grouping ''opt'' [Case ''x'' [Signal ''hi'' ''A'' ''B'' False False geom0] None] geom0],
          p_width = 10, p_height = Some 6\<rparr>"
proof -
  have ops:
    "dadd 0 (5 / 2) = 5 / 2"
    "dadd 1 2 = 3"
    "dadd (3 / 2) 1 = 5 / 2"
    "dadd (5 / 2) (5 / 2) = 5"
    "dadd (5 / 2) 5 = 15 / 2"
    "dadd 3 0 = 3"
    "dadd 3 2 = 5"
    "dadd 5 1 = 6"
    "dadd (15 / 2) (5 / 2) = 10"
    "ddiv 3 2 = 3 / 2"
    "dmul 1 2 = 2"
    "dmul 2 1 = 2"
    "dsub (5 / 2) (3 / 2) = 1"
    "dsub (15 / 2) (3 / 2) = 6"
    by code_simp+
  show ?thesis
    by (simp add: layout_defs parser_defs string_defs keyword_defs geom0_def upt_rec Let_def ops)
qed

text \<open>
  C2, as the code has it. For a grouping of type \<^verbatim>\<open>alt\<close> the triples of every case's
  events are among the triples collected, in the order of the cases; the placement gives
  the grouping x = 0, y = the cursor, the canvas width, and the height
  \<^verbatim>\<open>altMinHeight\<close> plus the heights of the cases, lays every case out from where the
  one before ended (the first from the cursor plus \<^verbatim>\<open>altMarginItems\<close>), and goes on
  after the last case plus \<^verbatim>\<open>altMarginBottom\<close>. A grouping of any other type is left
  as it is by both walks, and so are the events in it.
\<close>

theorem alt_groupings_are_walked_others_are_skipped:
  "fst (calculateLaneGapsAndTextSize dict sz (Grouping ''alt'' cs g # es)) =
     concat (map (\<lambda>c. fst (calculateLaneGapsAndTextSize dict sz (case_events c))) cs)
     @ fst (calculateLaneGapsAndTextSize dict sz es) \<and>
   (calculateEventPlacements dict actors sz totalWidth (Grouping ''alt'' cs g # es) y = Inr (yf, out)
    \<longrightarrow> (\<exists>cs' g' es' endY.
          out = Grouping ''alt'' cs' g' # es' \<and>
          cases_walk dict actors sz totalWidth cs (nadd y (Some (altMarginItems sz))) cs' endY \<and>
          ev_x g' = Some 0 \<and> ev_y g' = y \<and> ev_width g' = Some totalWidth \<and>
          ev_height g' = foldl nadd (Some (altMinHeight sz)) (map case_height cs') \<and>
          calculateEventPlacements dict actors sz totalWidth es
            (nadd endY (Some (altMarginBottom sz))) = Inr (yf, es'))) \<and>
   (t \<noteq> ''alt'' \<longrightarrow>
      calculateLaneGapsAndTextSize dict sz (Grouping t cs g # es) =
        (fst (calculateLaneGapsAndTextSize dict sz es),
         Grouping t cs g # snd (calculateLaneGapsAndTextSize dict sz es)) \<and>
      calculateEventPlacements dict actors sz totalWidth (Grouping t cs g # es) y =
        (case calculateEventPlacements dict actors sz totalWidth es y of
           Inl err \<Rightarrow> Inl err
         | Inr (y', es') \<Rightarrow> Inr (y', Grouping t cs g # es')))"
proof (intro conjI impI)
  show "fst (calculateLaneGapsAndTextSize dict sz (Grouping ''alt'' cs g # es)) =
     concat (map (\<lambda>c. fst (calculateLaneGapsAndTextSize dict sz (case_events c))) cs)
     @ fst (calculateLaneGapsAndTextSize dict sz es)"
    by (simp add: split_beta caseLaneGaps_concat)
next
  assume h: "calculateEventPlacements dict actors sz totalWidth (Grouping ''alt'' cs g # es) y = Inr (yf, out)"
  then obtain endY altHeight cs' es' where
    pc: "placeCases dict actors sz totalWidth cs (nadd y (Some (altMarginItems sz)))
           (Some (altMinHeight sz)) = Inr (endY, altHeight, cs')" and
    rest: "calculateEventPlacements dict actors sz totalWidth es
             (nadd endY (Some (altMarginBottom sz))) = Inr (yf, es')" and
    out: "out = Grouping ''alt'' cs'
            (g\<lparr>ev_x := Some 0, ev_y := y, ev_height := altHeight, ev_width := Some totalWidth\<rparr>) # es'"
    by (auto simp: Let_def split: sum.splits)
  from placeCases_walk[OF pc] have
    "cases_walk dict actors sz totalWidth cs (nadd y (Some (altMarginItems sz))) cs' endY"
    "altHeight = foldl nadd (Some (altMinHeight sz)) (map case_height cs')"
    by simp_all
  with rest out show "\<exists>cs' g' es' endY.
          out = Grouping ''alt'' cs' g' # es' \<and>
          cases_walk dict actors sz totalWidth cs (nadd y (Some (altMarginItems sz))) cs' endY \<and>
          ev_x g' = Some 0 \<and> ev_y g' = y \<and> ev_width g' = Some totalWidth \<and>
          ev_height g' = foldl nadd (Some (altMinHeight sz)) (map case_height cs') \<and>
          calculateEventPlacements dict actors sz totalWidth es
            (nadd endY (Some (altMarginBottom sz))) = Inr (yf, es')"
    by (intro exI[of _ cs'] exI[of _ "g\<lparr>ev_x := Some 0, ev_y := y, ev_height := altHeight,
          ev_width := Some totalWidth\<rparr>"] exI[of _ es'] exI[of _ endY]) simp
next
  assume "t \<noteq> ''alt''"
  then show "calculateLaneGapsAndTextSize dict sz (Grouping t cs g # es) =
        (fst (calculateLaneGapsAndTextSize dict sz es),
         Grouping t cs g # snd (calculateLaneGapsAndTextSize dict sz es))"
    by (simp add: split_beta)
next
  assume "t \<noteq> ''alt''"
  then show "calculateEventPlacements dict actors sz totalWidth (Grouping t cs g # es) y =
        (case calculateEventPlacements dict actors sz totalWidth es y of
           Inl err \<Rightarrow> Inl err
         | Inr (y', es') \<Rightarrow> Inr (y', Grouping t cs g # es'))"
    by simp
qed

theorem alt_groupings_are_walked_others_are_skipped_witness:
  "(\<exists>yf cs' g' es'.
      calculateEventPlacements (\<lambda>key. if key = ''A'' then Entry 0 else Missing)
        [(new_actor ''participant'' ''A'' None)\<lparr>a_lineX := Some 3\<rparr>] ascii_sizes 10
        [Grouping ''alt''
           [Case ''x'' [Signal ''hi'' ''A'' ''A'' False False (geom0\<lparr>ev_height := Some 1\<rparr>)] None]
           geom0] (Some 6) = Inr (yf, Grouping ''alt'' cs' g' # es') \<and>
      ev_x g' = Some 0 \<and> ev_y g' = Some 6 \<and> ev_width g' = Some 10 \<and>
      ev_height g' = foldl nadd (Some 1) (map case_height cs')) \<and>
   calculateLaneGapsAndTextSize (\<lambda>key. if key = ''A'' then Entry 0 else Missing) ascii_sizes
     [Grouping ''seq'' [Case ''x'' [Signal ''hi'' ''A'' ''A'' False False geom0] None] geom0] =
     ([], [Grouping ''seq'' [Case ''x'' [Signal ''hi'' ''A'' ''A'' False False geom0] None] geom0])"
proof -
  let ?dict = "\<lambda>key. if key = ''A'' then Entry 0 else Missing"
  let ?actors = "[(new_actor ''participant'' ''A'' None)\<lparr>a_lineX := Some 3\<rparr>]"
  let ?cs = "[Case ''x'' [Signal ''hi'' ''A'' ''A'' False False (geom0\<lparr>ev_height := Some 1\<rparr>)] None]"
  let ?cs2 = "[Case ''x'' [Signal ''hi'' ''A'' ''A'' False False geom0] None]"
  have ops:
    "dadd 1 3 = 4"
    "dadd 2 1 = 3"
    "dadd 6 1 = 7"
    "dadd 7 3 = 10"
    "dadd 10 1 = 11"
    "dsub 10 7 = 3"
    by code_simp+
  obtain yf out where run:
    "calculateEventPlacements ?dict ?actors ascii_sizes 10 [Grouping ''alt'' ?cs geom0] (Some 6) = Inr (yf, out)"
    by (simp add: layout_defs new_actor_def geom0_def Let_def ops)
  have ne: "''seq'' \<noteq> ''alt''" by simp
  have sz: "altMinHeight ascii_sizes = 1" by (simp add: ascii_sizes_def)
  from alt_groupings_are_walked_others_are_skipped[where dict = ?dict and actors = ?actors
      and sz = ascii_sizes and totalWidth = 10 and cs = ?cs and g = geom0 and es = "[]"
      and y = "Some 6" and yf = yf and out = out] run sz
  have a: "\<exists>cs' g' es'. out = Grouping ''alt'' cs' g' # es' \<and>
      ev_x g' = Some 0 \<and> ev_y g' = Some 6 \<and> ev_width g' = Some 10 \<and>
      ev_height g' = foldl nadd (Some 1) (map case_height cs')"
    by auto
  from alt_groupings_are_walked_others_are_skipped[where dict = ?dict and sz = ascii_sizes
      and t = "''seq''" and cs = ?cs2 and g = geom0 and es = "[]"] ne
  have b: "calculateLaneGapsAndTextSize ?dict ascii_sizes [Grouping ''seq'' ?cs2 geom0] =
      ([], [Grouping ''seq'' ?cs2 geom0])"
    by simp
  from a b run show ?thesis by auto
qed

text \<open>
  C4. The claim: after layout, the lane centres of two neighbouring actors lie at least
  as far apart as every triple collected for their two lanes demands. The centres are
  sums of doubles. With the participants A to E, a signal from A to D whose caption has
  14 characters and one from D to E whose caption has 9, the triple for the lanes of D
  and E demands 11; the centre of D is \<open>21 + 1 / 2 ^ 48\<close>, the sum of that and the gap 11 is
  rounded to 32, and the distance is less than 11.
\<close>

theorem neighbour_lane_distance_falls_short_by_rounding:
  "parseScriptToArrays
     ''participant A\<newline>participant B\<newline>participant C\<newline>participant D\<newline>participant E\<newline>A->D: abcdefghijklmn\<newline>D->E: abcdefghi'' =
   Inr ([new_actor ''participant'' ''A'' (Some ''A''), new_actor ''participant'' ''B'' (Some ''B''),
        new_actor ''participant'' ''C'' (Some ''C''), new_actor ''participant'' ''D'' (Some ''D''),
        new_actor ''participant'' ''E'' (Some ''E'')],
       [Signal ''abcdefghijklmn'' ''A'' ''D'' False False geom0,
        Signal ''abcdefghi'' ''D'' ''E'' False False geom0]) \<and>
   fst (calculateLaneGapsAndTextSize
          (dict_get
             (inherited_keys
                [new_actor ''participant'' ''A'' (Some ''A''), new_actor ''participant'' ''B'' (Some ''B''),
                 new_actor ''participant'' ''C'' (Some ''C''), new_actor ''participant'' ''D'' (Some ''D''),
                 new_actor ''participant'' ''E'' (Some ''E'')])
             (actorDict
                [new_actor ''participant'' ''A'' (Some ''A''), new_actor ''participant'' ''B'' (Some ''B''),
                 new_actor ''participant'' ''C'' (Some ''C''), new_actor ''participant'' ''D'' (Some ''D''),
                 new_actor ''participant'' ''E'' (Some ''E'')]))
          ascii_sizes
          [Signal ''abcdefghijklmn'' ''A'' ''D'' False False geom0,
           Signal ''abcdefghi'' ''D'' ''E'' False False geom0]) =
     [(Some 0, Some 3, 16), (Some 3, Some 4, 11)] \<and>
   layoutAscii
     ''participant A\<newline>participant B\<newline>participant C\<newline>participant D\<newline>participant E\<newline>A->D: abcdefghijklmn\<newline>D->E: abcdefghi'' =
   Inr \<lparr>p_actors =
         [\<lparr>a_type = ''participant'', a_caption = ''A'', a_alias = Some ''A'',
             a_width = Some 3, a_height = Some 3, a_lineX = Some (5 / 2),
             a_x = Some (1), a_y = Some 1, a_lineY = Some 12\<rparr>,
          \<lparr>a_type = ''participant'', a_caption = ''B'', a_alias = Some ''B'',
             a_width = Some 3, a_height = Some 3, a_lineX = Some (2439449798159019 / 281474976710656),
             a_x = Some (2017237333093035 / 281474976710656), a_y = Some 1, a_lineY = Some 12\<rparr>,
          \<lparr>a_type = ''participant'', a_caption = ''C'', a_alias = Some ''C'',
             a_width = Some 3, a_height = Some 3, a_lineX = Some (2087606077270699 / 140737488355328),
             a_x = Some (1876499844737707 / 140737488355328), a_y = Some 1, a_lineY = Some 12\<rparr>,
          \<lparr>a_type = ''participant'', a_caption = ''D'', a_alias = Some ''D'',
             a_width = Some 3, a_height = Some 3, a_lineX = Some (5910974510923777 / 281474976710656),
             a_x = Some (5488762045857793 / 281474976710656), a_y = Some 1, a_lineY = Some 12\<rparr>,
          \<lparr>a_type = ''participant'', a_caption = ''E'', a_alias = Some ''E'',
             a_width = Some 3, a_height = Some 3, a_lineX = Some (32),
             a_x = Some (61 / 2), a_y = Some 1, a_lineY = Some 12\<rparr>],
        p_events =
          [Signal ''abcdefghijklmn'' ''A'' ''D'' False False
            \<lparr>ev_x = None, ev_y = None, ev_width = Some 14, ev_height = Some 1,
               ev_startX = Some (5 / 2),
               ev_endX = Some (5910974510923777 / 281474976710656),
               ev_startY = Some 6, ev_endY = Some 6, ev_textMarginX = None,
               ev_textMarginY = None\<rparr>,
           Signal ''abcdefghi'' ''D'' ''E'' False False
            \<lparr>ev_x = None, ev_y = None, ev_width = Some 9, ev_height = Some 1,
               ev_startX = Some (5910974510923777 / 281474976710656),
               ev_endX = Some 32, ev_startY = Some 9, ev_endY = Some 9,
               ev_textMarginX = None, ev_textMarginY = None\<rparr>],
        p_width = 69 / 2, p_height = Some 12\<rparr> \<and>
   \<not> (11::rat) \<le> \<bar>32 - 5910974510923777 / 281474976710656\<bar>"
proof -
  have ops:
    "dadd 0 (5 / 2) = 5 / 2"
    "dadd 0 (6943049425529515 / 1125899906842624) = 6943049425529515 / 1125899906842624"
    "dadd 1 2 = 3"
    "dadd (3 / 2) 1 = 5 / 2"
    "dadd 2 1 = 3"
    "dadd (5 / 2) (5 / 2) = 5"
    "dadd (5 / 2) 5 = 15 / 2"
    "dadd (5 / 2) (6943049425529515 / 1125899906842624) = 2439449798159019 / 281474976710656"
    "dadd 3 0 = 3"
    "dadd 3 2 = 5"
    "dadd 5 1 = 6"
    "dadd 5 (5254199565265579 / 4503599627370496) = 6943049425529515 / 1125899906842624"
    "dadd 6 3 = 9"
    "dadd (15 / 2) 5 = 25 / 2"
    "dadd (2439449798159019 / 281474976710656) (6943049425529515 / 1125899906842624) = 2087606077270699 / 140737488355328"
    "dadd 9 2 = 11"
    "dadd 9 3 = 12"
    "dadd 14 2 = 16"
    "dadd (2087606077270699 / 140737488355328) (6943049425529515 / 1125899906842624) = 5910974510923777 / 281474976710656"
    "dadd (5910974510923777 / 281474976710656) 11 = 32"
    "dadd 32 (5 / 2) = 69 / 2"
    "ddiv 3 2 = 3 / 2"
    "ddiv (7 / 2) 3 = 5254199565265579 / 4503599627370496"
    "dmul 1 2 = 2"
    "dmul 2 1 = 2"
    "dsub (5 / 2) (3 / 2) = 1"
    "dsub (2439449798159019 / 281474976710656) (3 / 2) = 2017237333093035 / 281474976710656"
    "dsub (2087606077270699 / 140737488355328) (3 / 2) = 1876499844737707 / 140737488355328"
    "dsub 16 (25 / 2) = 7 / 2"
    "dsub (5910974510923777 / 281474976710656) (3 / 2) = 5488762045857793 / 281474976710656"
    "dsub 32 (3 / 2) = 61 / 2"
    by code_simp+
  show ?thesis
    by (simp add: layout_defs parser_defs string_defs keyword_defs geom0_def upt_rec Let_def ops)
qed

text \<open>
  C4, as the code has it. After layout every actor's width is the measured width of its
  caption plus twice the padding, in the arithmetic of doubles; and for every triple
  collected from the events whose two lanes are neighbours and belong to two actors,
  the lane centre of the right-hand actor is the lane centre of the left-hand actor plus
  a gap that is at least the triple's width, that sum rounded to a double.
\<close>

theorem neighbour_lane_centre_adds_gap_of_triple_width:
  assumes "calculatePlacements proto actors events sz = Inr p"
  shows "length (p_actors p) = length actors \<and>
     (\<forall>i<length actors.
        a_width (p_actors p ! i) =
          Some (dadd (b_width (calculateTextDimensions sz (a_caption (actors ! i))))
                  (dmul 2 (padding sz)))) \<and>
     (\<forall>i j w.
        (Some i, Some j, w) \<in>
            set (fst (calculateLaneGapsAndTextSize (dict_get proto (actorDict actors)) sz events)) \<and>
        max i j = min i j + 1 \<and> max i j < length actors
        \<longrightarrow> (\<exists>x1 x2 g. a_lineX (p_actors p ! min i j) = Some x1 \<and>
                       a_lineX (p_actors p ! max i j) = Some x2 \<and>
                       w \<le> g \<and> x2 = to_double (x1 + g)))"
proof -
  define dict where "dict = dict_get proto (actorDict actors)"
  obtain a1 g1 where l1:
    "fold (size_actor sz) [0..<length actors] (actors, replicate (length actors + 1) 0) = (a1, g1)"
    by (cases "fold (size_actor sz) [0..<length actors] (actors, replicate (length actors + 1) 0)") auto
  obtain ts ev1 where gc: "calculateLaneGapsAndTextSize dict sz events = (ts, ev1)"
    by (cases "calculateLaneGapsAndTextSize dict sz events") auto
  define g2 where "g2 = fold (\<lambda>g gaps. raise_gap gaps g) ts g1"
  define g3 where "g3 = fold (\<lambda>g gaps. spread_gap gaps g) ts g2"
  obtain a3 off mh where l3:
    "fold (place_actor sz g3) [0..<length a1] (a1, g3 ! 0, Some 0) = (a3, off, mh)"
    by (cases "fold (place_actor sz g3) [0..<length a1] (a1, g3 ! 0, Some 0)") auto
  from assms have "\<exists>y. p_actors p = map (\<lambda>actor. actor\<lparr>a_lineY := y\<rparr>) a3"
    unfolding calculatePlacements_def Let_def
    using l1 gc l3 by (auto simp: dict_def[symmetric] g2_def[symmetric] g3_def[symmetric]
        split: sum.splits)
  then obtain y where p: "p_actors p = map (\<lambda>actor. actor\<lparr>a_lineY := y\<rparr>) a3" ..
  note sl = size_actors_loop[OF order_refl l1]
  from sl have
    s1: "length a1 = length actors" "length g1 = length actors + 1"
      "\<forall>i<length actors. a_width (a1 ! i) =
          Some (dadd (b_width (calculateTextDimensions sz (a_caption (actors ! i))))
                  (dmul 2 (padding sz)))"
    by simp_all
  from sl doubles_replicate[of "length actors + 1"] have s1d: "doubles g1"
    by blast
  have tsd: "\<forall>t\<in>set ts. to_double (snd (snd t)) = snd (snd t)"
    using triples_are_doubles(1)[of dict sz events] gc by simp
  have le12: "gaps_le g1 g2" unfolding g2_def by (rule raise_gaps_grow)
  have d2: "doubles g2" unfolding g2_def using s1d tsd by (rule raise_gaps_doubles)
  have le23: "gaps_le g2 g3" unfolding g3_def using spread_gaps_grow[OF d2] by simp
  from le12 le23 s1(2) have lens: "length g2 = length actors + 1" "length g3 = length actors + 1"
    by (simp_all add: gaps_le_def)
  from place_actors_loop[OF _ l3] s1(1) have
    s3: "length a3 = length actors"
      "\<forall>i<length actors. a_lineX (a3 ! i) = Some (lane_centre g3 i) \<and>
          a_width (a3 ! i) = a_width (a1 ! i)"
    by auto
  show ?thesis
  proof (intro conjI allI impI)
    show "length (p_actors p) = length actors" using p s3(1) by simp
  next
    fix i assume "i < length actors"
    with p s3 s1(3) show "a_width (p_actors p ! i) =
        Some (dadd (b_width (calculateTextDimensions sz (a_caption (actors ! i))))
                (dmul 2 (padding sz)))"
      by simp
  next
    fix i j w
    assume h: "(Some i, Some j, w) \<in>
        set (fst (calculateLaneGapsAndTextSize (dict_get proto (actorDict actors)) sz events)) \<and>
        max i j = min i j + 1 \<and> max i j < length actors"
    then have adj: "max i j = min i j + 1" and rng: "max i j < length actors"
      by blast+
    from h gc have mem: "(Some i, Some j, w) \<in> set ts"
      by (simp add: dict_def)
    from rng s1(2) have r1: "max i j < length g1" by simp
    have "w \<le> g2 ! max i j" unfolding g2_def using mem adj r1 by (rule raise_gaps_reach)
    also have "\<dots> \<le> g3 ! max i j" using le23 rng lens(1) by (simp add: gaps_le_def)
    finally have w: "w \<le> g3 ! max i j" .
    from rng adj have lo: "min i j < length actors" by linarith
    from lo p s3 have x1: "a_lineX (p_actors p ! min i j) = Some (lane_centre g3 (min i j))"
      by simp
    from rng p s3 have x2: "a_lineX (p_actors p ! max i j) = Some (lane_centre g3 (max i j))"
      by simp
    have "lane_centre g3 (max i j) = to_double (lane_centre g3 (min i j) + g3 ! max i j)"
      unfolding adj by (simp add: dadd_def)
    with x1 x2 w show "\<exists>x1 x2 g. a_lineX (p_actors p ! min i j) = Some x1 \<and>
        a_lineX (p_actors p ! max i j) = Some x2 \<and> w \<le> g \<and> x2 = to_double (x1 + g)"
      by blast
  qed
qed

theorem neighbour_lane_centre_adds_gap_of_triple_width_witness:
  "a_width (p_actors (projr (layoutAscii ''A->B: hello there'')) ! 0) = Some 3 \<and>
   (\<exists>x1 x2 g. a_lineX (p_actors (projr (layoutAscii ''A->B: hello there'')) ! 0) = Some x1 \<and>
            a_lineX (p_actors (projr (layoutAscii ''A->B: hello there'')) ! 1) = Some x2 \<and>
            13 \<le> g \<and> x2 = to_double (x1 + g))"
proof -
  let ?actors = "[new_actor ''participant'' ''A'' None, new_actor ''participant'' ''B'' None]"
  let ?proto = "inherited_keys ?actors"
  let ?events = "[Signal ''hello there'' ''A'' ''B'' False False geom0]"
  have ops:
    "dadd 0 (5 / 2) = 5 / 2"
    "dadd 1 2 = 3"
    "dadd (3 / 2) 1 = 5 / 2"
    "dadd 2 1 = 3"
    "dadd (5 / 2) (5 / 2) = 5"
    "dadd (5 / 2) 13 = 31 / 2"
    "dadd 3 0 = 3"
    "dadd 3 2 = 5"
    "dadd 5 1 = 6"
    "dadd 6 3 = 9"
    "dadd 11 2 = 13"
    "dadd (31 / 2) (5 / 2) = 18"
    "ddiv 3 2 = 3 / 2"
    "dmul 1 2 = 2"
    "dmul 2 1 = 2"
    "dsub (5 / 2) (3 / 2) = 1"
    "dsub (31 / 2) (3 / 2) = 14"
    by code_simp+
  have parsed: "parseScriptToArrays ''A->B: hello there'' = Inr (?actors, ?events)"
    by (simp add: parser_defs string_defs keyword_defs)
  obtain p where p: "calculatePlacements ?proto ?actors ?events ascii_sizes = Inr p"
    by (simp add: layout_defs new_actor_def geom0_def upt_rec Let_def ops)
  from parsed p have lay: "layoutAscii ''A->B: hello there'' = Inr p"
    by (simp add: layoutAscii_def)
  have mem: "(Some 0, Some 1, 13) \<in>
      set (fst (calculateLaneGapsAndTextSize (dict_get ?proto (actorDict ?actors)) ascii_sizes ?events))"
    by (simp add: layout_defs new_actor_def geom0_def Let_def ops)
  have w: "dadd (b_width (calculateTextDimensions ascii_sizes (a_caption (?actors ! 0))))
      (dmul 2 (padding ascii_sizes)) = 3"
    by (simp add: layout_defs new_actor_def ops)
  note t = neighbour_lane_centre_adds_gap_of_triple_width[OF p]
  have adj: "max (0::nat) 1 = min 0 1 + 1" "max (0::nat) 1 < length ?actors" by simp_all
  from t have "a_width (p_actors p ! 0) =
      Some (dadd (b_width (calculateTextDimensions ascii_sizes (a_caption (?actors ! 0))))
              (dmul 2 (padding ascii_sizes)))"
    by simp
  with w have wd: "a_width (p_actors p ! 0) = Some 3" by simp
  from t mem adj have "\<exists>x1 x2 g. a_lineX (p_actors p ! min 0 1) = Some x1 \<and>
      a_lineX (p_actors p ! max 0 1) = Some x2 \<and> 13 \<le> g \<and> x2 = to_double (x1 + g)"
    by blast
  then have ex: "\<exists>x1 x2 g. a_lineX (p_actors p ! 0) = Some x1 \<and>
      a_lineX (p_actors p ! 1) = Some x2 \<and> 13 \<le> g \<and> x2 = to_double (x1 + g)"
    by simp
  from wd ex lay show ?thesis by simp
qed

end
